theory Spec2Isabelle
  imports Main
begin

section \<open>JavaScript values used by the spin-box examples\<close>

text \<open>
  The spin boxes store whatever is assigned to the \<^verbatim>\<open>value\<close> property: a number, a string
  (the text of the input field) or \<^verbatim>\<open>undefined\<close> (a missing state field). Numbers are
  modelled as exact integers plus \<^verbatim>\<open>NaN\<close>; an integer of the model stands for the
  double of the same value, which is exact while its magnitude stays below \<open>2^53\<close>.
  Strings are byte strings; the white space recognised is the ASCII white space.
\<close>

datatype jsval = JInt int | JNaN | JStr string | JUndefined

datatype js_error = TypeError

text \<open>
  What a call does: it returns with the new state of the element, it throws with the
  state reached at the throw, or it leaves the model: a string that does not denote a
  plain decimal integer is converted to a number, or an instance on the reactive mixin
  is detached or reattached, which the specification leaves open.
\<close>

datatype 'a outcome = Returns 'a | Throws js_error 'a | Unmodelled

definition isWhiteSpace :: "char \<Rightarrow> bool" where
  "isWhiteSpace c = (c \<in> set [CHR 0x09, CHR 0x0A, CHR 0x0B, CHR 0x0C, CHR 0x0D, CHR '' ''])"

definition digitValue :: "char \<Rightarrow> nat" where
  "digitValue c =
     (let n = (of_char c :: nat) in
      if 48 \<le> n \<and> n \<le> 57 then n - 48
      else if 97 \<le> n \<and> n \<le> 122 then n - 87
      else if 65 \<le> n \<and> n \<le> 90 then n - 55
      else 36)"

definition digitChar :: "nat \<Rightarrow> char" where
  "digitChar d = char_of (48 + d)"

fun digits10 :: "nat \<Rightarrow> string" where
  "digits10 n = (if n < 10 then [digitChar n] else digits10 (n div 10) @ [digitChar (n mod 10)])"

declare digits10.simps [simp del]

definition showInt :: "int \<Rightarrow> string" where
  "showInt i = (if i < 0 then CHR ''-'' # digits10 (nat (- i)) else digits10 (nat i))"

text \<open>\<^verbatim>\<open>ToString\<close> of the language, as applied when a value is assigned to \<^verbatim>\<open>input.value\<close>.\<close>

fun ToString :: "jsval \<Rightarrow> string" where
  "ToString (JInt i) = showInt i"
| "ToString JNaN = ''NaN''"
| "ToString (JStr s) = s"
| "ToString JUndefined = ''undefined''"

text \<open>
  \<^verbatim>\<open>parseInt(string)\<close> with no radix argument: leading white space is skipped, a sign is
  read, a prefix \<^verbatim>\<open>0x\<close> or \<^verbatim>\<open>0X\<close> selects radix 16 (radix 10 otherwise), and the longest
  prefix of digits of that radix is the number; with no digit the result is \<^verbatim>\<open>NaN\<close>.
\<close>

definition stripSign :: "string \<Rightarrow> bool \<times> string" where
  "stripSign s =
     (case s of
        [] \<Rightarrow> (False, [])
      | c # cs \<Rightarrow> if c = CHR ''-'' then (True, cs) else if c = CHR ''+'' then (False, cs) else (False, s))"

definition stripPrefix :: "string \<Rightarrow> nat \<times> string" where
  "stripPrefix s =
     (case s of
        c # d # cs \<Rightarrow> if c = CHR ''0'' \<and> (d = CHR ''x'' \<or> d = CHR ''X'') then (16, cs) else (10, s)
      | _ \<Rightarrow> (10, s))"

definition radixValue :: "nat \<Rightarrow> string \<Rightarrow> nat" where
  "radixValue r z = foldl (\<lambda>acc c. acc * r + digitValue c) 0 z"

definition parseIntString :: "string \<Rightarrow> jsval" where
  "parseIntString s =
     (let (neg, s1) = stripSign (dropWhile isWhiteSpace s);
          (r, s2) = stripPrefix s1;
          z = takeWhile (\<lambda>c. digitValue c < r) s2
      in if z = [] then JNaN
         else if neg then JInt (- int (radixValue r z)) else JInt (int (radixValue r z)))"


text \<open>
  The new value of an attribute is a string, or \<^verbatim>\<open>null\<close> when the attribute is removed;
  \<^verbatim>\<open>parseInt(null)\<close> parses the string \<^verbatim>\<open>"null"\<close>.
\<close>

definition parseIntAttr :: "string option \<Rightarrow> jsval" where
  "parseIntAttr a = (case a of None \<Rightarrow> parseIntString ''null'' | Some s \<Rightarrow> parseIntString s)"

text \<open>
  \<^verbatim>\<open>ToNumber\<close>, as applied by \<^verbatim>\<open>++\<close> and \<^verbatim>\<open>--\<close>. A string converts to an integer when,
  white space trimmed, it is empty or an optionally signed sequence of decimal digits;
  any other string (a fraction, an exponent, a prefixed literal, \<^verbatim>\<open>Infinity\<close>, or text
  that is no number at all) is outside the integer model.
\<close>

definition trim :: "string \<Rightarrow> string" where
  "trim s = rev (dropWhile isWhiteSpace (rev (dropWhile isWhiteSpace s)))"

definition ToNumber :: "jsval \<Rightarrow> jsval option" where
  "ToNumber v =
     (case v of
        JInt i \<Rightarrow> Some (JInt i)
      | JNaN \<Rightarrow> Some JNaN
      | JUndefined \<Rightarrow> Some JNaN
      | JStr s \<Rightarrow>
          (let t = trim s; (neg, ds) = stripSign t in
           if t = [] then Some (JInt 0)
           else if ds \<noteq> [] \<and> list_all (\<lambda>c. digitValue c < 10) ds
           then Some (JInt (if neg then - int (radixValue 10 ds) else int (radixValue 10 ds)))
           else None))"

text \<open>Addition of an integer to a number: \<^verbatim>\<open>NaN\<close> is absorbing.\<close>

fun addInt :: "jsval \<Rightarrow> int \<Rightarrow> jsval" where
  "addInt (JInt i) k = JInt (i + k)"
| "addInt v k = JNaN"

fun andThen :: "'a outcome \<Rightarrow> ('a \<Rightarrow> 'a outcome) \<Rightarrow> 'a outcome" where
  "andThen (Returns s) f = f s"
| "andThen (Throws e s) f = Throws e s"
| "andThen Unmodelled f = Unmodelled"

text \<open>
  Dispatching an event to \<open>n\<close> registered copies of a listener: each copy runs; an
  exception of a listener is reported by the host and the remaining listeners still run.
\<close>

fun dispatch :: "nat \<Rightarrow> ('a \<Rightarrow> 'a outcome) \<Rightarrow> 'a \<Rightarrow> 'a outcome" where
  "dispatch 0 h s = Returns s"
| "dispatch (Suc n) h s =
     (case h s of
        Returns s' \<Rightarrow> dispatch n h s'
      | Throws e s' \<Rightarrow> (case dispatch n h s' of Returns s'' \<Rightarrow> Throws e s'' | r \<Rightarrow> r)
      | Unmodelled \<Rightarrow> Unmodelled)"

text \<open>The state a call leaves behind, when it stays inside the model.\<close>

fun stateAfter :: "'a outcome \<Rightarrow> 'a option" where
  "stateAfter (Returns s) = Some s"
| "stateAfter (Throws e s) = Some s"
| "stateAfter Unmodelled = None"

section \<open>The shadow tree cloned from \<^verbatim>\<open>spinBoxTemplate\<close>\<close>

text \<open>
  The template holds an input field and two buttons. The model keeps the text of the
  field, the number of assignments scripts made to \<^verbatim>\<open>input.value\<close>, and for each of the
  three elements the number of listeners registered by \<^verbatim>\<open>addEventListener\<close>.
\<close>

record shadow =
  input_value :: string
  input_writes :: nat
  input_listeners :: nat
  downButton_listeners :: nat
  upButton_listeners :: nat

definition template_content :: shadow where
  "template_content =
     \<lparr>input_value = [], input_writes = 0, input_listeners = 0,
      downButton_listeners = 0, upButton_listeners = 0\<rparr>"

text \<open>
  An element: its shadow root (\<^verbatim>\<open>null\<close> until one is attached) and the number of shadow
  roots created for it, each populated with a clone of the template.
\<close>

record host =
  shadowRoot :: "shadow option"
  attachShadow_calls :: nat

text \<open>The first and the second example keep the value in the field \<^verbatim>\<open>_value\<close>.\<close>

record SpinBox = host +
  priv_value :: jsval

text \<open>The three \<^verbatim>\<open>addEventListener\<close> calls that wire up the event handlers.\<close>

definition addEventListeners :: "shadow \<Rightarrow> shadow" where
  "addEventListeners root =
     root\<lparr>input_listeners := Suc (input_listeners root),
          downButton_listeners := Suc (downButton_listeners root),
          upButton_listeners := Suc (upButton_listeners root)\<rparr>"

text \<open>The assignment \<^verbatim>\<open>input.value = v\<close>.\<close>

definition assign_input_value :: "jsval \<Rightarrow> shadow \<Rightarrow> shadow" where
  "assign_input_value v root =
     root\<lparr>input_value := ToString v, input_writes := Suc (input_writes root)\<rparr>"

section \<open>Example 1: the hand-rolled spin box\<close>

definition SpinBox1_constructor :: SpinBox where
  "SpinBox1_constructor = \<lparr>shadowRoot = None, attachShadow_calls = 0, priv_value = JInt 0\<rparr>"

definition SpinBox1_get_value :: "SpinBox \<Rightarrow> jsval" where
  "SpinBox1_get_value this = priv_value this"

text \<open>
  The setter stores the value first and then renders it through \<^verbatim>\<open>this.shadowRoot\<close>;
  with no shadow root the property access on \<^verbatim>\<open>null\<close> throws.
\<close>

definition SpinBox1_set_value :: "jsval \<Rightarrow> SpinBox \<Rightarrow> SpinBox outcome" where
  "SpinBox1_set_value v this =
     (let this1 = this\<lparr>priv_value := v\<rparr> in
      case shadowRoot this1 of
        None \<Rightarrow> Throws TypeError this1
      | Some root \<Rightarrow>
          Returns (this1\<lparr>shadowRoot := Some (assign_input_value (priv_value this1) root)\<rparr>))"

definition SpinBox1_attributeChangedCallback ::
    "string \<Rightarrow> string option \<Rightarrow> string option \<Rightarrow> SpinBox \<Rightarrow> SpinBox outcome" where
  "SpinBox1_attributeChangedCallback attributeName oldValue newValue this =
     (if attributeName = ''value'' then SpinBox1_set_value (parseIntAttr newValue) this
      else Returns this)"

definition SpinBox1_connectedCallback :: "SpinBox \<Rightarrow> SpinBox outcome" where
  "SpinBox1_connectedCallback this =
     (let this1 =
        (if shadowRoot this = None
         then this\<lparr>shadowRoot := Some (addEventListeners template_content),
                   attachShadow_calls := Suc (attachShadow_calls this)\<rparr>
         else this)
      in case shadowRoot this1 of
           None \<Rightarrow> Throws TypeError this1
         | Some root \<Rightarrow>
             Returns (this1\<lparr>shadowRoot := Some (assign_input_value (priv_value this1) root)\<rparr>))"

text \<open>
  The three listeners: \<^verbatim>\<open>this.value = input.value\<close>, \<^verbatim>\<open>this.value--\<close>, \<^verbatim>\<open>this.value++\<close>.
  The decrement and the increment read the property, convert what they read to a number
  and write the number minus or plus one. The listeners exist only on the elements of a
  shadow tree.
\<close>

definition SpinBox1_onInput :: "SpinBox \<Rightarrow> SpinBox outcome" where
  "SpinBox1_onInput this =
     (case shadowRoot this of
        None \<Rightarrow> Throws TypeError this
      | Some root \<Rightarrow> SpinBox1_set_value (JStr (input_value root)) this)"

definition SpinBox1_onDownButton :: "SpinBox \<Rightarrow> SpinBox outcome" where
  "SpinBox1_onDownButton this =
     (case ToNumber (SpinBox1_get_value this) of
        None \<Rightarrow> Unmodelled
      | Some n \<Rightarrow> SpinBox1_set_value (addInt n (- 1)) this)"

definition SpinBox1_onUpButton :: "SpinBox \<Rightarrow> SpinBox outcome" where
  "SpinBox1_onUpButton this =
     (case ToNumber (SpinBox1_get_value this) of
        None \<Rightarrow> Unmodelled
      | Some n \<Rightarrow> SpinBox1_set_value (addInt n 1) this)"

text \<open>
  What happens to an element: the host connects or disconnects it, a script writes the
  property or an attribute, the user edits the field or presses a button. The class
  defines no \<^verbatim>\<open>disconnectedCallback\<close>. Without a shadow tree there is no field to edit
  and no button to press.
\<close>

datatype event =
    Connect
  | Disconnect
  | SetValue jsval
  | AttributeChanged string "string option"
  | EditInput string
  | PressDown
  | PressUp

definition user_edit :: "string \<Rightarrow> shadow \<Rightarrow> shadow" where
  "user_edit t root = root\<lparr>input_value := t\<rparr>"

fun SpinBox1_step :: "event \<Rightarrow> SpinBox \<Rightarrow> SpinBox outcome" where
  "SpinBox1_step Connect this = SpinBox1_connectedCallback this"
| "SpinBox1_step Disconnect this = Returns this"
| "SpinBox1_step (SetValue v) this = SpinBox1_set_value v this"
| "SpinBox1_step (AttributeChanged a new) this = SpinBox1_attributeChangedCallback a None new this"
| "SpinBox1_step (EditInput t) this =
     (case shadowRoot this of
        None \<Rightarrow> Returns this
      | Some root \<Rightarrow>
          dispatch (input_listeners root) SpinBox1_onInput (this\<lparr>shadowRoot := Some (user_edit t root)\<rparr>))"
| "SpinBox1_step PressDown this =
     (case shadowRoot this of
        None \<Rightarrow> Returns this
      | Some root \<Rightarrow> dispatch (downButton_listeners root) SpinBox1_onDownButton this)"
| "SpinBox1_step PressUp this =
     (case shadowRoot this of
        None \<Rightarrow> Returns this
      | Some root \<Rightarrow> dispatch (upButton_listeners root) SpinBox1_onUpButton this)"

text \<open>
  A sequence of events: an exception is reported and the next event finds the state
  the throwing call left; the run is undefined once an event leaves the model.
\<close>

fun run :: "(event \<Rightarrow> 'a \<Rightarrow> 'a outcome) \<Rightarrow> event list \<Rightarrow> 'a \<Rightarrow> 'a option" where
  "run step [] s = Some s"
| "run step (e # es) s = (case stateAfter (step e s) of None \<Rightarrow> None | Some s' \<Rightarrow> run step es s')"

section \<open>The template mixin\<close>

text \<open>
  Modelled from the spec: \<^verbatim>\<open>ShadowTemplateMixin\<close> (\<^verbatim>\<open>lib/core/ShadowTemplateMixin.js\<close> is
  not among the sources). Section 4.1: on first activation the provider clones the
  fragment into a newly created isolated root attached to the instance; on
  re-activation it detects that the instance already has a root and skips creation.
\<close>

definition ShadowTemplateMixin_render :: "'a host_scheme \<Rightarrow> 'a host_scheme" where
  "ShadowTemplateMixin_render this =
     (if shadowRoot this = None
      then this\<lparr>shadowRoot := Some template_content,
                attachShadow_calls := Suc (attachShadow_calls this)\<rparr>
      else this)"

text \<open>
  Work on the elements found through \<^verbatim>\<open>this[ids]\<close>, which is short for
  \<^verbatim>\<open>this.shadowRoot.getElementById\<close>: with no shadow root the access throws.
\<close>

definition with_ids :: "(shadow \<Rightarrow> shadow) \<Rightarrow> 'a host_scheme \<Rightarrow> 'a host_scheme outcome" where
  "with_ids f this =
     (case shadowRoot this of
        None \<Rightarrow> Throws TypeError this
      | Some root \<Rightarrow> Returns (this\<lparr>shadowRoot := Some (f root)\<rparr>))"

section \<open>Example 3: the spin box on the template mixin\<close>

definition SpinBox3_constructor :: SpinBox where
  "SpinBox3_constructor = \<lparr>shadowRoot = None, attachShadow_calls = 0, priv_value = JInt 0\<rparr>"

definition SpinBox3_render :: "SpinBox \<Rightarrow> SpinBox outcome" where
  "SpinBox3_render this =
     (let firstRender = (shadowRoot this = None);
          this1 = ShadowTemplateMixin_render this
      in andThen (if firstRender then with_ids addEventListeners this1 else Returns this1)
           (\<lambda>this2. with_ids (assign_input_value (priv_value this2)) this2))"

definition SpinBox3_get_value :: "SpinBox \<Rightarrow> jsval" where
  "SpinBox3_get_value this = priv_value this"

definition SpinBox3_set_value :: "jsval \<Rightarrow> SpinBox \<Rightarrow> SpinBox outcome" where
  "SpinBox3_set_value v this = SpinBox3_render (this\<lparr>priv_value := v\<rparr>)"

definition SpinBox3_attributeChangedCallback ::
    "string \<Rightarrow> string option \<Rightarrow> string option \<Rightarrow> SpinBox \<Rightarrow> SpinBox outcome" where
  "SpinBox3_attributeChangedCallback attributeName oldValue newValue this =
     (if attributeName = ''value'' then SpinBox3_set_value (parseIntAttr newValue) this
      else Returns this)"

definition SpinBox3_connectedCallback :: "SpinBox \<Rightarrow> SpinBox outcome" where
  "SpinBox3_connectedCallback this = SpinBox3_render this"

definition SpinBox3_onInput :: "SpinBox \<Rightarrow> SpinBox outcome" where
  "SpinBox3_onInput this =
     (case shadowRoot this of
        None \<Rightarrow> Throws TypeError this
      | Some root \<Rightarrow> SpinBox3_set_value (JStr (input_value root)) this)"

definition SpinBox3_onDownButton :: "SpinBox \<Rightarrow> SpinBox outcome" where
  "SpinBox3_onDownButton this =
     (case ToNumber (SpinBox3_get_value this) of
        None \<Rightarrow> Unmodelled
      | Some n \<Rightarrow> SpinBox3_set_value (addInt n (- 1)) this)"

definition SpinBox3_onUpButton :: "SpinBox \<Rightarrow> SpinBox outcome" where
  "SpinBox3_onUpButton this =
     (case ToNumber (SpinBox3_get_value this) of
        None \<Rightarrow> Unmodelled
      | Some n \<Rightarrow> SpinBox3_set_value (addInt n 1) this)"

fun SpinBox3_step :: "event \<Rightarrow> SpinBox \<Rightarrow> SpinBox outcome" where
  "SpinBox3_step Connect this = SpinBox3_connectedCallback this"
| "SpinBox3_step Disconnect this = Returns this"
| "SpinBox3_step (SetValue v) this = SpinBox3_set_value v this"
| "SpinBox3_step (AttributeChanged a new) this = SpinBox3_attributeChangedCallback a None new this"
| "SpinBox3_step (EditInput t) this =
     (case shadowRoot this of
        None \<Rightarrow> Returns this
      | Some root \<Rightarrow>
          dispatch (input_listeners root) SpinBox3_onInput (this\<lparr>shadowRoot := Some (user_edit t root)\<rparr>))"
| "SpinBox3_step PressDown this =
     (case shadowRoot this of
        None \<Rightarrow> Returns this
      | Some root \<Rightarrow> dispatch (downButton_listeners root) SpinBox3_onDownButton this)"
| "SpinBox3_step PressUp this =
     (case shadowRoot this of
        None \<Rightarrow> Returns this
      | Some root \<Rightarrow> dispatch (upButton_listeners root) SpinBox3_onUpButton this)"

section \<open>The reactive mixin\<close>

type_synonym snapshot = "string \<rightharpoonup> jsval"

type_synonym partial = "(string \<times> jsval) list"

text \<open>
  Modelled from the spec: \<^verbatim>\<open>ReactiveMixin\<close> (\<^verbatim>\<open>lib/core/ReactiveMixin.js\<close> is not among the
  sources). Sections 3 and 4.2: a snapshot maps field names to values; an update
  shallow-merges a partial mapping over the current snapshot, later fields winning.
\<close>

fun merge :: "snapshot \<Rightarrow> partial \<Rightarrow> snapshot" where
  "merge current [] = current"
| "merge current ((k, v) # kvs) = merge (current(k \<mapsto> v)) kvs"

text \<open>
  Modelled from the spec: the change set of section 3, comparing the new snapshot with
  the prior one field by field; a merge can change only the fields the partial names.
  Two values are equal when they are the same value (\<^verbatim>\<open>NaN\<close> equal to itself).
\<close>

definition fieldsChanged :: "snapshot \<Rightarrow> partial \<Rightarrow> string set" where
  "fieldsChanged current p =
     set (filter (\<lambda>k. merge current p k \<noteq> current k) (map fst p))"

text \<open>
  Modelled from the spec: the per-instance data of section 4.2, for an attached instance:
  the current snapshot, the render-scheduled flag, the change set accumulated since the
  last completed render, the number of completed render passes, and the element the
  render callback writes to. \<open>passes\<close> records what each completed pass observed:
  snapshot, change set and first-render flag.
\<close>

record 'd reactive =
  state :: snapshot
  renderScheduled :: bool
  changedSinceLastRender :: "string set"
  renderCount :: nat
  passes :: "(snapshot \<times> string set \<times> bool) list"
  element :: 'd

text \<open>
  Modelled from the spec: the update operation of section 4.2. \<open>next = merge current
  partial\<close>; if \<open>next\<close> is field-wise equal to \<open>current\<close> nothing happens; otherwise
  \<open>current := next\<close>, the changed fields are added to the accumulated change set and a
  render pass is scheduled (the flag is set; setting it again while a pass is pending
  schedules no second pass).
\<close>

definition setState :: "partial \<Rightarrow> 'd reactive \<Rightarrow> 'd reactive" where
  "setState p this =
     (let next = merge (state this) p in
      if list_all (\<lambda>k. next k = state this k) (map fst p) then this
      else this\<lparr>state := next,
                changedSinceLastRender := changedSinceLastRender this \<union> fieldsChanged (state this) p,
                renderScheduled := True\<rparr>)"

text \<open>
  Modelled from the spec: the render pass of sections 3 and 4.2, run when the
  synchronous turn that scheduled it ends. The callback sees the current snapshot, the
  accumulated change set and the first-render flag, which is true on the first pass of
  the instance only. Completion of the pass clears the change set and the scheduled flag.
  An exception of the callback leaves the pass uncompleted.
\<close>

definition renderChanges ::
    "(snapshot \<Rightarrow> string set \<Rightarrow> bool \<Rightarrow> 'd \<Rightarrow> 'd outcome) \<Rightarrow> 'd reactive \<Rightarrow> 'd reactive outcome" where
  "renderChanges render this =
     (if renderScheduled this then
        (let firstRender = (renderCount this = 0);
             changed = changedSinceLastRender this
         in case render (state this) changed firstRender (element this) of
              Returns el \<Rightarrow>
                Returns (this\<lparr>element := el,
                              renderScheduled := False,
                              changedSinceLastRender := {},
                              renderCount := Suc (renderCount this),
                              passes := passes this @ [(state this, changed, firstRender)]\<rparr>)
            | Throws e el \<Rightarrow> Throws e (this\<lparr>element := el\<rparr>)
            | Unmodelled \<Rightarrow> Unmodelled)
      else Returns this)"

text \<open>
  Modelled from the spec: attaching an instance (sections 3 and 4.2). The snapshot is
  created from the component's default state, every field of which differs from the
  empty prior snapshot, and the first render pass runs.
\<close>

definition attach ::
    "partial \<Rightarrow> (snapshot \<Rightarrow> string set \<Rightarrow> bool \<Rightarrow> 'd \<Rightarrow> 'd outcome) \<Rightarrow> 'd \<Rightarrow> 'd reactive outcome" where
  "attach defaults render el =
     renderChanges render
       \<lparr>state = merge Map.empty defaults,
        renderScheduled = True,
        changedSinceLastRender = fieldsChanged Map.empty defaults,
        renderCount = 0,
        passes = [],
        element = el\<rparr>"

text \<open>One synchronous turn: a handler runs, then the pending render pass, if any.\<close>

definition turn ::
    "(snapshot \<Rightarrow> string set \<Rightarrow> bool \<Rightarrow> 'd \<Rightarrow> 'd outcome) \<Rightarrow> ('d reactive \<Rightarrow> 'd reactive outcome)
      \<Rightarrow> 'd reactive \<Rightarrow> 'd reactive outcome" where
  "turn render handler this =
     (case handler this of
        Returns this1 \<Rightarrow> renderChanges render this1
      | Throws e this1 \<Rightarrow>
          (case renderChanges render this1 of Returns this2 \<Rightarrow> Throws e this2 | r \<Rightarrow> r)
      | Unmodelled \<Rightarrow> Unmodelled)"

text \<open>\<open>N\<close> updates issued one after the other within one turn.\<close>

fun updates :: "partial list \<Rightarrow> 'd reactive \<Rightarrow> 'd reactive" where
  "updates [] this = this"
| "updates (p # ps) this = updates ps (setState p this)"

text \<open>The union of the fields changed by each of the updates, each against the snapshot it met.\<close>

fun changedAcross :: "partial list \<Rightarrow> snapshot \<Rightarrow> string set" where
  "changedAcross [] current = {}"
| "changedAcross (p # ps) current = fieldsChanged current p \<union> changedAcross ps (merge current p)"

fun mergeAll :: "partial list \<Rightarrow> snapshot \<Rightarrow> snapshot" where
  "mergeAll [] current = current"
| "mergeAll (p # ps) current = mergeAll ps (merge current p)"

text \<open>A sequence of turns, each a burst of updates followed by the end of the turn.\<close>

fun turns ::
    "(snapshot \<Rightarrow> string set \<Rightarrow> bool \<Rightarrow> 'd \<Rightarrow> 'd outcome) \<Rightarrow> partial list list \<Rightarrow> 'd reactive
      \<Rightarrow> 'd reactive outcome" where
  "turns render [] this = Returns this"
| "turns render (ps # pss) this =
     andThen (renderChanges render (updates ps this)) (turns render pss)"

section \<open>Example 4: the spin box on the reactive mixin\<close>

text \<open>
  Modelled from the spec: the default state the reactive mixin itself contributes;
  section 4.2 names no field of its own.
\<close>

definition ReactiveMixin_defaultState :: partial where
  "ReactiveMixin_defaultState = []"

definition SpinBox4_defaultState :: partial where
  "SpinBox4_defaultState = ReactiveMixin_defaultState @ [(''value'', JInt 0)]"

text \<open>Reading a field of the state object; a missing field reads as \<^verbatim>\<open>undefined\<close>.\<close>

definition field :: "snapshot \<Rightarrow> string \<Rightarrow> jsval" where
  "field st k = (case st k of None \<Rightarrow> JUndefined | Some v \<Rightarrow> v)"

definition SpinBox4_render :: "snapshot \<Rightarrow> string set \<Rightarrow> bool \<Rightarrow> host \<Rightarrow> host outcome" where
  "SpinBox4_render st changed firstRender this =
     (let this1 = ShadowTemplateMixin_render this
      in andThen (if firstRender then with_ids addEventListeners this1 else Returns this1)
           (\<lambda>this2. if ''value'' \<in> changed
                     then with_ids (assign_input_value (field st ''value'')) this2
                     else Returns this2))"

definition SpinBox4_get_value :: "host reactive \<Rightarrow> jsval" where
  "SpinBox4_get_value this = field (state this) ''value''"

definition SpinBox4_set_value :: "jsval \<Rightarrow> host reactive \<Rightarrow> host reactive" where
  "SpinBox4_set_value v this = setState [(''value'', v)] this"

definition SpinBox4_attributeChangedCallback ::
    "string \<Rightarrow> string option \<Rightarrow> string option \<Rightarrow> host reactive \<Rightarrow> host reactive" where
  "SpinBox4_attributeChangedCallback attributeName oldValue newValue this =
     (if attributeName = ''value'' then SpinBox4_set_value (parseIntAttr newValue) this
      else this)"

definition SpinBox4_onInput :: "host reactive \<Rightarrow> host reactive outcome" where
  "SpinBox4_onInput this =
     (case shadowRoot (element this) of
        None \<Rightarrow> Throws TypeError this
      | Some root \<Rightarrow> Returns (SpinBox4_set_value (JStr (input_value root)) this))"

definition SpinBox4_onDownButton :: "host reactive \<Rightarrow> host reactive outcome" where
  "SpinBox4_onDownButton this =
     (case ToNumber (SpinBox4_get_value this) of
        None \<Rightarrow> Unmodelled
      | Some n \<Rightarrow> Returns (SpinBox4_set_value (addInt n (- 1)) this))"

definition SpinBox4_onUpButton :: "host reactive \<Rightarrow> host reactive outcome" where
  "SpinBox4_onUpButton this =
     (case ToNumber (SpinBox4_get_value this) of
        None \<Rightarrow> Unmodelled
      | Some n \<Rightarrow> Returns (SpinBox4_set_value (addInt n 1) this))"

text \<open>A freshly created element is attached: the first render pass runs.\<close>

definition SpinBox4_attached :: "host reactive outcome" where
  "SpinBox4_attached =
     attach SpinBox4_defaultState SpinBox4_render \<lparr>shadowRoot = None, attachShadow_calls = 0\<rparr>"

text \<open>
  What happens to an attached element, each in a turn of its own: a script writes the
  property or the attribute, the user edits the field or presses a button. What
  detaching and reattaching do to the reactive state is left open by the specification
  (sections 4.2 and 9) and is not modelled.
\<close>

fun SpinBox4_step :: "event \<Rightarrow> host reactive \<Rightarrow> host reactive outcome" where
  "SpinBox4_step (SetValue v) this =
     turn SpinBox4_render (\<lambda>this. Returns (SpinBox4_set_value v this)) this"
| "SpinBox4_step (AttributeChanged a new) this =
     turn SpinBox4_render (\<lambda>this. Returns (SpinBox4_attributeChangedCallback a None new this)) this"
| "SpinBox4_step (EditInput t) this =
     (case shadowRoot (element this) of
        None \<Rightarrow> Returns this
      | Some root \<Rightarrow>
          turn SpinBox4_render (dispatch (input_listeners root) SpinBox4_onInput)
            (this\<lparr>element := (element this)\<lparr>shadowRoot := Some (user_edit t root)\<rparr>\<rparr>))"
| "SpinBox4_step PressDown this =
     (case shadowRoot (element this) of
        None \<Rightarrow> Returns this
      | Some root \<Rightarrow> turn SpinBox4_render (dispatch (downButton_listeners root) SpinBox4_onDownButton) this)"
| "SpinBox4_step PressUp this =
     (case shadowRoot (element this) of
        None \<Rightarrow> Returns this
      | Some root \<Rightarrow> turn SpinBox4_render (dispatch (upButton_listeners root) SpinBox4_onUpButton) this)"
| "SpinBox4_step Connect this = Unmodelled"
| "SpinBox4_step Disconnect this = Unmodelled"

section \<open>The themed spin box\<close>




section \<open>Auxiliary notions for the properties\<close>


text \<open>
  An element is wired once when it has no shadow root and none was ever created, or it
  has the one shadow root ever created and each of the three elements of the template
  carries exactly one listener.
\<close>

definition wired_once :: "'a host_scheme \<Rightarrow> bool" where
  "wired_once this =
     (case shadowRoot this of
        None \<Rightarrow> attachShadow_calls this = 0
      | Some root \<Rightarrow>
          attachShadow_calls this = 1 \<and> input_listeners root = 1 \<and>
          downButton_listeners root = 1 \<and> upButton_listeners root = 1)"

text \<open>The text the input field shows, when there is one, and how often scripts wrote it.\<close>

definition shownText :: "'a host_scheme \<Rightarrow> string option" where
  "shownText this = (case shadowRoot this of None \<Rightarrow> None | Some root \<Rightarrow> Some (input_value root))"

definition inputWrites :: "'a host_scheme \<Rightarrow> nat" where
  "inputWrites this = (case shadowRoot this of None \<Rightarrow> 0 | Some root \<Rightarrow> input_writes root)"

text \<open>An attached reactive spin box between two turns: no pass is pending, the first pass
  has run, the element is wired once and the field shows the value of the snapshot.\<close>

definition SpinBox4_idle :: "host reactive \<Rightarrow> bool" where
  "SpinBox4_idle this =
     (\<not> renderScheduled this \<and> changedSinceLastRender this = {} \<and> 0 < renderCount this \<and>
      wired_once (element this) \<and> state this ''value'' \<noteq> None \<and>
      shownText (element this) = Some (ToString (field (state this) ''value'')))"

text \<open>A run of events on a freshly attached reactive spin box.\<close>

definition SpinBox4_run :: "event list \<Rightarrow> host reactive option" where
  "SpinBox4_run evs =
     (case stateAfter SpinBox4_attached of None \<Rightarrow> None | Some this \<Rightarrow> run SpinBox4_step evs this)"

text \<open>The first-render flags the completed passes observed.\<close>

definition passFlags :: "'d reactive \<Rightarrow> bool list" where
  "passFlags this = map (\<lambda>(st, changed, firstRender). firstRender) (passes this)"

text \<open>
  The reactive spin box as its first render pass leaves it when its default value is
  \<open>v\<close>: wired once, showing \<open>v\<close>, no pass pending.
\<close>

definition idle_at :: "jsval \<Rightarrow> host reactive" where
  "idle_at v =
     \<lparr>state = [''value'' \<mapsto> v],
      renderScheduled = False,
      changedSinceLastRender = {},
      renderCount = 1,
      passes = [([''value'' \<mapsto> v], {''value''}, True)],
      element = \<lparr>shadowRoot = Some (assign_input_value v (addEventListeners template_content)),
                 attachShadow_calls = 1\<rparr>\<rparr>"

text \<open>The passes completed so far are counted, and only the first saw the flag set.\<close>

definition flagged_once :: "'d reactive \<Rightarrow> bool" where
  "flagged_once this =
     (renderCount this = length (passes this) \<and>
      passFlags this = (if passes this = [] then [] else True # replicate (length (passes this) - 1) False))"






section \<open>Numbers and their decimal text\<close>

























section \<open>The reactive mixin: merging and scheduling\<close>

lemma merge_other: "k \<notin> fst ` set p \<Longrightarrow> merge current p k = current k"
  by (induction current p rule: merge.induct) auto

lemma merge_unchanged_iff:
  "list_all (\<lambda>k. merge current p k = current k) (map fst p) \<longleftrightarrow> merge current p = current"
proof
  assume a: "list_all (\<lambda>k. merge current p k = current k) (map fst p)"
  show "merge current p = current"
  proof
    fix k
    show "merge current p k = current k"
    proof (cases "k \<in> fst ` set p")
      case True
      with a show ?thesis by (auto simp: list_all_iff)
    next
      case False
      then show ?thesis by (rule merge_other)
    qed
  qed
next
  assume "merge current p = current"
  then show "list_all (\<lambda>k. merge current p k = current k) (map fst p)"
    by (simp add: list_all_iff)
qed

lemma fieldsChanged_empty_iff: "fieldsChanged current p = {} \<longleftrightarrow> merge current p = current"
  unfolding merge_unchanged_iff [symmetric]
  by (auto simp: fieldsChanged_def list_all_iff filter_empty_conv)

lemma fieldsChanged_redundant: "merge current p = current \<Longrightarrow> fieldsChanged current p = {}"
  by (simp add: fieldsChanged_empty_iff)

lemma fieldsChanged_eq: "fieldsChanged current p = {k. merge current p k \<noteq> current k}"
  using merge_other [of _ p current] by (auto simp: fieldsChanged_def)

lemma setState_redundant: "merge (state this) p = state this \<Longrightarrow> setState p this = this"
  unfolding setState_def Let_def merge_unchanged_iff by simp

lemma setState_effective:
  "merge (state this) p \<noteq> state this \<Longrightarrow>
   setState p this =
     this\<lparr>state := merge (state this) p,
          changedSinceLastRender := changedSinceLastRender this \<union> fieldsChanged (state this) p,
          renderScheduled := True\<rparr>"
  unfolding setState_def Let_def merge_unchanged_iff by simp

lemma setState_fields:
  "state (setState p this) = merge (state this) p"
  "changedSinceLastRender (setState p this) = changedSinceLastRender this \<union> fieldsChanged (state this) p"
  "renderScheduled (setState p this) = (renderScheduled this \<or> fieldsChanged (state this) p \<noteq> {})"
  "renderCount (setState p this) = renderCount this"
  "passes (setState p this) = passes this"
  "element (setState p this) = element this"
proof -
  show "state (setState p this) = merge (state this) p"
    by (cases "merge (state this) p = state this") (simp_all add: setState_redundant setState_effective)
  show "changedSinceLastRender (setState p this) = changedSinceLastRender this \<union> fieldsChanged (state this) p"
    by (cases "merge (state this) p = state this")
      (simp_all add: setState_redundant setState_effective fieldsChanged_empty_iff fieldsChanged_redundant)
  show "renderScheduled (setState p this) = (renderScheduled this \<or> fieldsChanged (state this) p \<noteq> {})"
    by (cases "merge (state this) p = state this")
      (simp_all add: setState_redundant setState_effective fieldsChanged_empty_iff fieldsChanged_redundant)
  show "renderCount (setState p this) = renderCount this"
    by (cases "merge (state this) p = state this") (simp_all add: setState_redundant setState_effective)
  show "passes (setState p this) = passes this"
    by (cases "merge (state this) p = state this") (simp_all add: setState_redundant setState_effective)
  show "element (setState p this) = element this"
    by (cases "merge (state this) p = state this") (simp_all add: setState_redundant setState_effective)
qed

lemma updates_state: "state (updates ps this) = mergeAll ps (state this)"
  by (induction ps arbitrary: this) (simp_all add: setState_fields)

lemma updates_changed:
  "changedSinceLastRender (updates ps this) = changedSinceLastRender this \<union> changedAcross ps (state this)"
  by (induction ps arbitrary: this) (simp_all add: setState_fields Un_assoc)

lemma updates_scheduled:
  "renderScheduled (updates ps this) = (renderScheduled this \<or> changedAcross ps (state this) \<noteq> {})"
  by (induction ps arbitrary: this) (simp_all add: setState_fields disj_assoc)

lemma updates_rest:
  "renderCount (updates ps this) = renderCount this"
  "passes (updates ps this) = passes this"
  "element (updates ps this) = element this"
  by (induction ps arbitrary: this) (simp_all add: setState_fields)

lemma renderChanges_idle: "\<not> renderScheduled this \<Longrightarrow> renderChanges render this = Returns this"
  by (simp add: renderChanges_def)

lemma renderChanges_pending:
  assumes "renderScheduled this"
    and "render (state this) (changedSinceLastRender this) (renderCount this = 0) (element this) = Returns el"
  shows "renderChanges render this =
           Returns (this\<lparr>element := el, renderScheduled := False, changedSinceLastRender := {},
                         renderCount := Suc (renderCount this),
                         passes := passes this @
                           [(state this, changedSinceLastRender this, renderCount this = 0)]\<rparr>)"
  using assms by (simp add: renderChanges_def)

lemma renderChanges_cases:
  assumes "renderChanges render this = Returns this'"
  shows "(\<not> renderScheduled this \<and> this' = this) \<or>
         (renderScheduled this \<and>
          (\<exists>el. this' = this\<lparr>element := el, renderScheduled := False, changedSinceLastRender := {},
                         renderCount := Suc (renderCount this),
                         passes := passes this @
                           [(state this, changedSinceLastRender this, renderCount this = 0)]\<rparr>))"
  using assms by (auto simp: renderChanges_def Let_def split: if_splits outcome.splits)

lemma flagged_once_updates: "flagged_once (updates ps this) = flagged_once this"
  by (simp add: flagged_once_def passFlags_def updates_rest)

lemma flagged_once_renderChanges:
  assumes "flagged_once this" "renderChanges render this = Returns this'"
  shows "flagged_once this'"
  using renderChanges_cases [OF assms(2)] assms(1)
  by (auto simp: flagged_once_def passFlags_def replicate_append_same)

lemma flagged_once_turns:
  "flagged_once this \<Longrightarrow> turns render pss this = Returns this' \<Longrightarrow> flagged_once this'"
proof (induction pss arbitrary: this)
  case Nil
  then show ?case by simp
next
  case (Cons ps pss)
  from Cons.prems(2) obtain this1 where
    r: "renderChanges render (updates ps this) = Returns this1" and t: "turns render pss this1 = Returns this'"
    by (cases "renderChanges render (updates ps this)") auto
  from Cons.prems(1) have "flagged_once (updates ps this)" by (simp add: flagged_once_updates)
  from flagged_once_renderChanges [OF this r] have "flagged_once this1" .
  from Cons.IH [OF this t] show ?case .
qed

lemma turns_passes_grow:
  "turns render pss this = Returns this' \<Longrightarrow> length (passes this) \<le> length (passes this')"
proof (induction pss arbitrary: this)
  case Nil
  then show ?case by simp
next
  case (Cons ps pss)
  from Cons.prems obtain this1 where
    r: "renderChanges render (updates ps this) = Returns this1" and t: "turns render pss this1 = Returns this'"
    by (cases "renderChanges render (updates ps this)") auto
  from renderChanges_cases [OF r] have "length (passes this) \<le> length (passes this1)"
    by (auto simp: updates_rest)
  with Cons.IH [OF t] show ?case by simp
qed

lemma attach_first:
  assumes "attach defaults render el = Returns this"
  shows "flagged_once this \<and> length (passes this) = 1"
  using renderChanges_cases [OF assms [unfolded attach_def]]
  by (auto simp: flagged_once_def passFlags_def)

section \<open>Example 4 between turns\<close>

lemma SpinBox4_render_returns: "\<exists>el'. SpinBox4_render st changed firstRender el = Returns el'"
  by (cases "shadowRoot el")
    (simp_all add: SpinBox4_render_def ShadowTemplateMixin_render_def with_ids_def Let_def)

lemma SpinBox4_render_later:
  "shadowRoot el = Some root \<Longrightarrow>
   SpinBox4_render st {''value''} False el =
     Returns (el\<lparr>shadowRoot := Some (assign_input_value (field st ''value'') root)\<rparr>)"
  by (simp add: SpinBox4_render_def ShadowTemplateMixin_render_def with_ids_def Let_def)

lemma SpinBox4_attached_eq: "SpinBox4_attached = Returns (idle_at (JInt 0))"
  by (simp add: SpinBox4_attached_def attach_def renderChanges_def SpinBox4_defaultState_def
      ReactiveMixin_defaultState_def fieldsChanged_def SpinBox4_render_def
      ShadowTemplateMixin_render_def with_ids_def idle_at_def field_def Let_def)

lemma SpinBox4_idle_at: "SpinBox4_idle (idle_at v)"
  by (simp add: SpinBox4_idle_def idle_at_def wired_once_def shownText_def field_def
      assign_input_value_def addEventListeners_def template_content_def)

lemma fieldsChanged_single:
  "current k \<noteq> Some w \<Longrightarrow> fieldsChanged current [(k, w)] = {k}"
  by (simp add: fieldsChanged_def)

lemma SpinBox4_write:
  assumes "\<not> renderScheduled this" "changedSinceLastRender this = {}" "0 < renderCount this"
    and "shadowRoot (element this) = Some root" "state this ''value'' = Some v"
  shows "\<exists>this'. renderChanges SpinBox4_render (SpinBox4_set_value w this) = Returns this' \<and>
     \<not> renderScheduled this' \<and> changedSinceLastRender this' = {} \<and> 0 < renderCount this' \<and>
     state this' = (state this)(''value'' \<mapsto> w) \<and>
     attachShadow_calls (element this') = attachShadow_calls (element this) \<and>
     shadowRoot (element this') = Some (if w = v then root else assign_input_value w root) \<and>
     passes this' = passes this @
       (if w = v then [] else [((state this)(''value'' \<mapsto> w), {''value''}, False)])"
proof (cases "w = v")
  case True
  with assms(5) have same: "merge (state this) [(''value'', w)] = state this"
    by (simp add: map_upd_triv)
  then have "SpinBox4_set_value w this = this"
    unfolding SpinBox4_set_value_def by (rule setState_redundant)
  with assms True same show ?thesis
    by (simp add: renderChanges_idle)
next
  case False
  with assms(5) have ne: "state this ''value'' \<noteq> Some w" by simp
  then have diff: "merge (state this) [(''value'', w)] \<noteq> state this"
    by (metis fun_upd_same merge.simps(1) merge.simps(2))
  have fc: "fieldsChanged (state this) [(''value'', w)] = {''value''}"
    using ne by (rule fieldsChanged_single)
  have r: "SpinBox4_render ((state this)(''value'' \<mapsto> w)) {''value''} False (element this) =
      Returns ((element this)\<lparr>shadowRoot := Some (assign_input_value w root)\<rparr>)"
    using SpinBox4_render_later [OF assms(4), of "(state this)(''value'' \<mapsto> w)"]
    by (simp add: field_def)
  show ?thesis
    using assms False r
    by (simp add: SpinBox4_set_value_def setState_effective [OF diff] fc renderChanges_def)
qed

lemma SpinBox4_idleE:
  assumes "SpinBox4_idle this"
  obtains root v where "\<not> renderScheduled this" "changedSinceLastRender this = {}"
    "0 < renderCount this" "shadowRoot (element this) = Some root" "state this ''value'' = Some v"
    "attachShadow_calls (element this) = 1" "input_listeners root = 1"
    "downButton_listeners root = 1" "upButton_listeners root = 1"
    "input_value root = ToString v" "SpinBox4_get_value this = v"
  using assms
  by (auto simp: SpinBox4_idle_def wired_once_def shownText_def field_def SpinBox4_get_value_def
      split: option.splits)

lemma SpinBox4_idleI:
  assumes "\<not> renderScheduled this" "changedSinceLastRender this = {}"
    "0 < renderCount this" "shadowRoot (element this) = Some root" "state this ''value'' = Some v"
    "attachShadow_calls (element this) = 1" "input_listeners root = 1"
    "downButton_listeners root = 1" "upButton_listeners root = 1"
    "input_value root = ToString v"
  shows "SpinBox4_idle this"
  using assms
  by (simp add: SpinBox4_idle_def wired_once_def shownText_def field_def)

lemma SpinBox4_write_idle:
  assumes "SpinBox4_idle this"
  shows "\<exists>this'. renderChanges SpinBox4_render (SpinBox4_set_value w this) = Returns this' \<and>
     SpinBox4_idle this' \<and> SpinBox4_get_value this' = w \<and>
     shownText (element this') = Some (ToString w) \<and>
     (w = SpinBox4_get_value this \<longrightarrow>
        passes this' = passes this \<and> inputWrites (element this') = inputWrites (element this)) \<and>
     (w \<noteq> SpinBox4_get_value this \<longrightarrow>
        length (passes this') = Suc (length (passes this)) \<and>
        inputWrites (element this') = Suc (inputWrites (element this)))"
proof -
  from assms obtain root v where h: "\<not> renderScheduled this" "changedSinceLastRender this = {}"
    "0 < renderCount this" "shadowRoot (element this) = Some root" "state this ''value'' = Some v"
    "attachShadow_calls (element this) = 1" "input_listeners root = 1"
    "downButton_listeners root = 1" "upButton_listeners root = 1"
    "input_value root = ToString v" "SpinBox4_get_value this = v"
    by (rule SpinBox4_idleE)
  from SpinBox4_write [OF h(1-5), of w] obtain this' where
    w: "renderChanges SpinBox4_render (SpinBox4_set_value w this) = Returns this'"
      "\<not> renderScheduled this'" "changedSinceLastRender this' = {}" "0 < renderCount this'"
      "state this' = (state this)(''value'' \<mapsto> w)"
      "attachShadow_calls (element this') = attachShadow_calls (element this)"
      "shadowRoot (element this') = Some (if w = v then root else assign_input_value w root)"
      "passes this' = passes this @
         (if w = v then [] else [((state this)(''value'' \<mapsto> w), {''value''}, False)])"
    by blast
  have i: "SpinBox4_idle this'"
    by (rule SpinBox4_idleI [OF w(2-4) w(7), of w])
      (use w h in \<open>simp_all add: assign_input_value_def\<close>)
  from w h have "SpinBox4_get_value this' = w"
    by (simp add: SpinBox4_get_value_def field_def)
  moreover from w h have "shownText (element this') = Some (ToString w)"
    by (simp add: shownText_def assign_input_value_def)
  moreover from w h have "w = SpinBox4_get_value this \<longrightarrow>
        passes this' = passes this \<and> inputWrites (element this') = inputWrites (element this)"
    by (simp add: inputWrites_def)
  moreover from w h have "w \<noteq> SpinBox4_get_value this \<longrightarrow>
        length (passes this') = Suc (length (passes this)) \<and>
        inputWrites (element this') = Suc (inputWrites (element this))"
    by (simp add: inputWrites_def assign_input_value_def)
  ultimately show ?thesis using w(1) i by blast
qed

lemma turn_Returns: "turn render (\<lambda>this. Returns (f this)) this = renderChanges render (f this)"
  by (simp add: turn_def)

lemma dispatch_one: "dispatch (Suc 0) h s = h s"
  by (cases "h s") simp_all

lemma SpinBox4_edit_idle:
  assumes "SpinBox4_idle this"
  shows "\<exists>this'. SpinBox4_step (EditInput t) this = Returns this' \<and>
     SpinBox4_idle this' \<and> SpinBox4_get_value this' = JStr t \<and>
     shownText (element this') = Some t"
proof -
  from assms obtain root v where h: "\<not> renderScheduled this" "changedSinceLastRender this = {}"
    "0 < renderCount this" "shadowRoot (element this) = Some root" "state this ''value'' = Some v"
    "attachShadow_calls (element this) = 1" "input_listeners root = 1"
    "downButton_listeners root = 1" "upButton_listeners root = 1"
    "input_value root = ToString v" "SpinBox4_get_value this = v"
    by (rule SpinBox4_idleE)
  define this1 where "this1 = this\<lparr>element := (element this)\<lparr>shadowRoot := Some (user_edit t root)\<rparr>\<rparr>"
  have h1: "\<not> renderScheduled this1" "changedSinceLastRender this1 = {}" "0 < renderCount this1"
    "shadowRoot (element this1) = Some (user_edit t root)" "state this1 ''value'' = Some v"
    using h by (simp_all add: this1_def)
  have step: "SpinBox4_step (EditInput t) this =
      renderChanges SpinBox4_render (SpinBox4_set_value (JStr t) this1)"
    using h
    by (simp add: this1_def dispatch_one turn_def SpinBox4_onInput_def user_edit_def)
  from SpinBox4_write [OF h1, of "JStr t"] obtain this' where
    w: "renderChanges SpinBox4_render (SpinBox4_set_value (JStr t) this1) = Returns this'"
      "\<not> renderScheduled this'" "changedSinceLastRender this' = {}" "0 < renderCount this'"
      "state this' = (state this1)(''value'' \<mapsto> JStr t)"
      "attachShadow_calls (element this') = attachShadow_calls (element this1)"
      "shadowRoot (element this') =
         Some (if JStr t = v then user_edit t root else assign_input_value (JStr t) (user_edit t root))"
    by blast
  have i: "SpinBox4_idle this'"
    by (rule SpinBox4_idleI [OF w(2-4) w(7), of "JStr t"])
      (use w h in \<open>simp_all add: assign_input_value_def user_edit_def this1_def\<close>)
  from w have "SpinBox4_get_value this' = JStr t"
    by (simp add: SpinBox4_get_value_def field_def)
  moreover from w have "shownText (element this') = Some t"
    by (simp add: shownText_def assign_input_value_def user_edit_def)
  ultimately show ?thesis using step w(1) i by simp
qed

lemma SpinBox4_press_idle:
  assumes "SpinBox4_idle this" "ToNumber (SpinBox4_get_value this) = Some n"
  shows "SpinBox4_step PressDown this =
           renderChanges SpinBox4_render (SpinBox4_set_value (addInt n (- 1)) this)"
    and "SpinBox4_step PressUp this =
           renderChanges SpinBox4_render (SpinBox4_set_value (addInt n 1) this)"
proof -
  from assms(1) obtain root v where h: "\<not> renderScheduled this" "changedSinceLastRender this = {}"
    "0 < renderCount this" "shadowRoot (element this) = Some root" "state this ''value'' = Some v"
    "attachShadow_calls (element this) = 1" "input_listeners root = 1"
    "downButton_listeners root = 1" "upButton_listeners root = 1"
    "input_value root = ToString v" "SpinBox4_get_value this = v"
    by (rule SpinBox4_idleE)
  show "SpinBox4_step PressDown this =
           renderChanges SpinBox4_render (SpinBox4_set_value (addInt n (- 1)) this)"
    using h assms(2) by (simp add: dispatch_one turn_def SpinBox4_onDownButton_def)
  show "SpinBox4_step PressUp this =
           renderChanges SpinBox4_render (SpinBox4_set_value (addInt n 1) this)"
    using h assms(2) by (simp add: dispatch_one turn_def SpinBox4_onUpButton_def)
qed

lemma SpinBox4_press_unmodelled:
  assumes "SpinBox4_idle this" "ToNumber (SpinBox4_get_value this) = None"
  shows "SpinBox4_step PressDown this = Unmodelled" "SpinBox4_step PressUp this = Unmodelled"
proof -
  from assms(1) obtain root where h: "shadowRoot (element this) = Some root"
    "downButton_listeners root = 1" "upButton_listeners root = 1"
    by (rule SpinBox4_idleE)
  show "SpinBox4_step PressDown this = Unmodelled"
    using h assms(2) by (simp add: dispatch_one turn_def SpinBox4_onDownButton_def)
  show "SpinBox4_step PressUp this = Unmodelled"
    using h assms(2) by (simp add: dispatch_one turn_def SpinBox4_onUpButton_def)
qed

lemma SpinBox4_step_idle:
  assumes "SpinBox4_idle this" "stateAfter (SpinBox4_step e this) = Some this'"
  shows "SpinBox4_idle this'"
proof (cases e)
  case Connect
  with assms show ?thesis by simp
next
  case Disconnect
  with assms show ?thesis by simp
next
  case (SetValue w)
  with SpinBox4_write_idle [OF assms(1), of w] assms(2) show ?thesis
    by (auto simp: turn_Returns)
next
  case (AttributeChanged a new)
  show ?thesis
  proof (cases "a = ''value''")
    case True
    with AttributeChanged SpinBox4_write_idle [OF assms(1), of "parseIntAttr new"] assms(2)
    show ?thesis
      by (auto simp: turn_Returns SpinBox4_attributeChangedCallback_def)
  next
    case False
    from assms(1) have "\<not> renderScheduled this" by (simp add: SpinBox4_idle_def)
    with False AttributeChanged assms show ?thesis
      by (simp add: turn_Returns SpinBox4_attributeChangedCallback_def renderChanges_idle)
  qed
next
  case (EditInput t)
  with SpinBox4_edit_idle [OF assms(1), of t] assms(2) show ?thesis by auto
next
  case PressDown
  show ?thesis
  proof (cases "ToNumber (SpinBox4_get_value this)")
    case None
    with SpinBox4_press_unmodelled(1) [OF assms(1)] PressDown assms(2) show ?thesis by simp
  next
    case (Some n)
    with SpinBox4_press_idle(1) [OF assms(1)] SpinBox4_write_idle [OF assms(1), of "addInt n (- 1)"]
      PressDown assms(2)
    show ?thesis by auto
  qed
next
  case PressUp
  show ?thesis
  proof (cases "ToNumber (SpinBox4_get_value this)")
    case None
    with SpinBox4_press_unmodelled(2) [OF assms(1)] PressUp assms(2) show ?thesis by simp
  next
    case (Some n)
    with SpinBox4_press_idle(2) [OF assms(1)] SpinBox4_write_idle [OF assms(1), of "addInt n 1"]
      PressUp assms(2)
    show ?thesis by auto
  qed
qed

lemma run_invariant:
  assumes "\<And>e s s'. P s \<Longrightarrow> stateAfter (step e s) = Some s' \<Longrightarrow> P s'"
  shows "P s \<Longrightarrow> run step evs s = Some s' \<Longrightarrow> P s'"
proof (induction evs arbitrary: s)
  case Nil
  then show ?case by simp
next
  case (Cons e evs)
  from Cons.prems(2) obtain s1 where a: "stateAfter (step e s) = Some s1" and r: "run step evs s1 = Some s'"
    by (auto split: option.splits)
  from assms [OF Cons.prems(1) a] have "P s1" .
  from Cons.IH [OF this r] show ?case .
qed

lemma SpinBox4_run_idle: "SpinBox4_run evs = Some this \<Longrightarrow> SpinBox4_idle this"
  unfolding SpinBox4_run_def SpinBox4_attached_eq
  using run_invariant [of SpinBox4_idle SpinBox4_step "idle_at (JInt 0)" evs this]
    SpinBox4_step_idle SpinBox4_idle_at [of "JInt 0"]
  by auto

section \<open>Examples 1 and 3: wiring\<close>

lemma SpinBox1_set_value_root:
  "shadowRoot this = Some root \<Longrightarrow>
   SpinBox1_set_value v this =
     Returns (this\<lparr>priv_value := v, shadowRoot := Some (assign_input_value v root)\<rparr>)"
  by (simp add: SpinBox1_set_value_def Let_def)

lemma SpinBox1_set_value_null:
  "shadowRoot this = None \<Longrightarrow> SpinBox1_set_value v this = Throws TypeError (this\<lparr>priv_value := v\<rparr>)"
  by (simp add: SpinBox1_set_value_def Let_def)

lemma SpinBox1_connectedCallback_null:
  "shadowRoot this = None \<Longrightarrow>
   SpinBox1_connectedCallback this =
     Returns (this\<lparr>shadowRoot :=
                     Some (assign_input_value (priv_value this) (addEventListeners template_content)),
                   attachShadow_calls := Suc (attachShadow_calls this)\<rparr>)"
  by (simp add: SpinBox1_connectedCallback_def Let_def)

lemma SpinBox1_connectedCallback_root:
  "shadowRoot this = Some root \<Longrightarrow>
   SpinBox1_connectedCallback this =
     Returns (this\<lparr>shadowRoot := Some (assign_input_value (priv_value this) root)\<rparr>)"
  by (simp add: SpinBox1_connectedCallback_def Let_def)

lemma SpinBox3_render_null:
  "shadowRoot this = None \<Longrightarrow>
   SpinBox3_render this =
     Returns (this\<lparr>shadowRoot :=
                     Some (assign_input_value (priv_value this) (addEventListeners template_content)),
                   attachShadow_calls := Suc (attachShadow_calls this)\<rparr>)"
  by (simp add: SpinBox3_render_def ShadowTemplateMixin_render_def with_ids_def Let_def)

lemma SpinBox3_render_root:
  "shadowRoot this = Some root \<Longrightarrow>
   SpinBox3_render this =
     Returns (this\<lparr>shadowRoot := Some (assign_input_value (priv_value this) root)\<rparr>)"
  by (simp add: SpinBox3_render_def ShadowTemplateMixin_render_def with_ids_def Let_def)

lemma SpinBox3_set_value_root:
  "shadowRoot this = Some root \<Longrightarrow>
   SpinBox3_set_value v this =
     Returns (this\<lparr>priv_value := v, shadowRoot := Some (assign_input_value v root)\<rparr>)"
  by (simp add: SpinBox3_set_value_def SpinBox3_render_root)

lemma SpinBox3_set_value_null:
  "shadowRoot this = None \<Longrightarrow>
   SpinBox3_set_value v this =
     Returns (this\<lparr>priv_value := v,
                   shadowRoot := Some (assign_input_value v (addEventListeners template_content)),
                   attachShadow_calls := Suc (attachShadow_calls this)\<rparr>)"
  by (simp add: SpinBox3_set_value_def SpinBox3_render_null)

lemma wired_once_null: "shadowRoot this = None \<Longrightarrow> wired_once this = (attachShadow_calls this = 0)"
  by (simp add: wired_once_def)

lemma wired_once_root:
  "shadowRoot this = Some root \<Longrightarrow>
   wired_once this = (attachShadow_calls this = 1 \<and> input_listeners root = 1 \<and>
     downButton_listeners root = 1 \<and> upButton_listeners root = 1)"
  by (simp add: wired_once_def)

lemma SpinBox1_step_wired:
  assumes "wired_once this" "stateAfter (SpinBox1_step e this) = Some this'"
  shows "wired_once this' \<and> (shadowRoot this' \<noteq> None \<longleftrightarrow> shadowRoot this \<noteq> None \<or> e = Connect)"
proof (cases "shadowRoot this")
  case None
  with assms show ?thesis
    by (cases e)
      (auto simp: SpinBox1_set_value_null SpinBox1_connectedCallback_null wired_once_def
        SpinBox1_attributeChangedCallback_def assign_input_value_def addEventListeners_def
        template_content_def split: if_splits)
next
  case (Some root)
  with assms(1) have w: "attachShadow_calls this = 1" "input_listeners root = 1"
    "downButton_listeners root = 1" "upButton_listeners root = 1"
    by (simp_all add: wired_once_root)
  show ?thesis
  proof (cases e)
    case Connect
    with Some assms show ?thesis
      by (auto simp: SpinBox1_connectedCallback_root wired_once_def assign_input_value_def)
  next
    case Disconnect
    with Some assms show ?thesis by auto
  next
    case (SetValue v)
    with Some assms show ?thesis
      by (auto simp: SpinBox1_set_value_root wired_once_def assign_input_value_def)
  next
    case (AttributeChanged a new)
    with Some assms show ?thesis
      by (auto simp: SpinBox1_set_value_root wired_once_def assign_input_value_def
          SpinBox1_attributeChangedCallback_def split: if_splits)
  next
    case (EditInput t)
    with Some assms w show ?thesis
      by (auto simp: dispatch_one SpinBox1_onInput_def SpinBox1_set_value_root wired_once_def
          assign_input_value_def user_edit_def)
  next
    case PressDown
    with Some assms w show ?thesis
      by (auto simp: dispatch_one SpinBox1_onDownButton_def SpinBox1_set_value_root wired_once_def
          assign_input_value_def split: option.splits)
  next
    case PressUp
    with Some assms w show ?thesis
      by (auto simp: dispatch_one SpinBox1_onUpButton_def SpinBox1_set_value_root wired_once_def
          assign_input_value_def split: option.splits)
  qed
qed

lemma SpinBox3_step_wired:
  assumes "wired_once this" "stateAfter (SpinBox3_step e this) = Some this'"
  shows "wired_once this' \<and> (shadowRoot this \<noteq> None \<or> e = Connect \<longrightarrow> shadowRoot this' \<noteq> None)"
proof (cases "shadowRoot this")
  case None
  with assms show ?thesis
    by (cases e)
      (auto simp: SpinBox3_set_value_null SpinBox3_render_null SpinBox3_connectedCallback_def
        wired_once_def SpinBox3_attributeChangedCallback_def assign_input_value_def
        addEventListeners_def template_content_def split: if_splits)
next
  case (Some root)
  with assms(1) have w: "attachShadow_calls this = 1" "input_listeners root = 1"
    "downButton_listeners root = 1" "upButton_listeners root = 1"
    by (simp_all add: wired_once_root)
  show ?thesis
  proof (cases e)
    case Connect
    with Some assms show ?thesis
      by (auto simp: SpinBox3_connectedCallback_def SpinBox3_render_root wired_once_def
          assign_input_value_def)
  next
    case Disconnect
    with Some assms show ?thesis by auto
  next
    case (SetValue v)
    with Some assms show ?thesis
      by (auto simp: SpinBox3_set_value_root wired_once_def assign_input_value_def)
  next
    case (AttributeChanged a new)
    with Some assms show ?thesis
      by (auto simp: SpinBox3_set_value_root wired_once_def assign_input_value_def
          SpinBox3_attributeChangedCallback_def split: if_splits)
  next
    case (EditInput t)
    with Some assms w show ?thesis
      by (auto simp: dispatch_one SpinBox3_onInput_def SpinBox3_set_value_root wired_once_def
          assign_input_value_def user_edit_def)
  next
    case PressDown
    with Some assms w show ?thesis
      by (auto simp: dispatch_one SpinBox3_onDownButton_def SpinBox3_set_value_root wired_once_def
          assign_input_value_def split: option.splits)
  next
    case PressUp
    with Some assms w show ?thesis
      by (auto simp: dispatch_one SpinBox3_onUpButton_def SpinBox3_set_value_root wired_once_def
          assign_input_value_def split: option.splits)
  qed
qed

lemma SpinBox1_run_wired:
  "wired_once this \<Longrightarrow> run SpinBox1_step evs this = Some this' \<Longrightarrow>
   wired_once this' \<and> (shadowRoot this' \<noteq> None \<longleftrightarrow> shadowRoot this \<noteq> None \<or> Connect \<in> set evs)"
proof (induction evs arbitrary: this)
  case Nil
  then show ?case by simp
next
  case (Cons e evs)
  from Cons.prems(2) obtain this1 where a: "stateAfter (SpinBox1_step e this) = Some this1"
    and r: "run SpinBox1_step evs this1 = Some this'"
    by (auto split: option.splits)
  from SpinBox1_step_wired [OF Cons.prems(1) a] Cons.IH [OF _ r] show ?case by auto
qed

lemma SpinBox3_run_wired:
  "wired_once this \<Longrightarrow> run SpinBox3_step evs this = Some this' \<Longrightarrow>
   wired_once this' \<and> (shadowRoot this \<noteq> None \<or> Connect \<in> set evs \<longrightarrow> shadowRoot this' \<noteq> None)"
proof (induction evs arbitrary: this)
  case Nil
  then show ?case by simp
next
  case (Cons e evs)
  from Cons.prems(2) obtain this1 where a: "stateAfter (SpinBox3_step e this) = Some this1"
    and r: "run SpinBox3_step evs this1 = Some this'"
    by (auto split: option.splits)
  from SpinBox3_step_wired [OF Cons.prems(1) a] Cons.IH [OF _ r] show ?case by auto
qed

lemma run_attach_detach:
  assumes "\<And>s. \<exists>s'. step Connect s = Returns s'" "\<And>s. \<exists>s'. step Disconnect s = Returns s'"
  shows "set evs \<subseteq> {Connect, Disconnect} \<Longrightarrow> \<exists>s'. run step evs s = Some s'"
proof (induction evs arbitrary: s)
  case Nil
  then show ?case by simp
next
  case (Cons e evs)
  then have "e = Connect \<or> e = Disconnect" by simp
  with assms obtain s1 where "step e s = Returns s1" by metis
  with Cons show ?case by simp
qed

lemma SpinBox1_connect_returns: "\<exists>s'. SpinBox1_step Connect s = Returns s'"
  by (cases "shadowRoot s") (simp_all add: SpinBox1_connectedCallback_null SpinBox1_connectedCallback_root)

lemma SpinBox3_connect_returns: "\<exists>s'. SpinBox3_step Connect s = Returns s'"
  by (cases "shadowRoot s")
    (simp_all add: SpinBox3_connectedCallback_def SpinBox3_render_null SpinBox3_render_root)

lemma wired_once_constructors: "wired_once SpinBox1_constructor" "wired_once SpinBox3_constructor"
  by (simp_all add: wired_once_def SpinBox1_constructor_def SpinBox3_constructor_def)

lemma constructors_null: "shadowRoot SpinBox1_constructor = None" "shadowRoot SpinBox3_constructor = None"
  by (simp_all add: SpinBox1_constructor_def SpinBox3_constructor_def)

lemma wired_once_calls: "wired_once this \<Longrightarrow> attachShadow_calls this \<le> 1"
  by (simp add: wired_once_def split: option.splits)

lemma wired_once_rootD:
  "wired_once this \<Longrightarrow> shadowRoot this \<noteq> None \<Longrightarrow>
   attachShadow_calls this = 1 \<and>
   (\<exists>root. shadowRoot this = Some root \<and> input_listeners root = 1 \<and>
      downButton_listeners root = 1 \<and> upButton_listeners root = 1)"
  by (auto simp: wired_once_def)

lemma showInt_examples:
  "showInt 0 = ''0''" "showInt 1 = ''1''" "showInt (- 1) = ''-1''" "showInt 5 = ''5''"
  by code_simp+

lemmas eval_defs =
  SpinBox1_constructor_def SpinBox3_constructor_def SpinBox1_connectedCallback_def
  SpinBox3_connectedCallback_def SpinBox1_set_value_def SpinBox3_set_value_def SpinBox3_render_def
  ShadowTemplateMixin_render_def with_ids_def SpinBox1_attributeChangedCallback_def
  SpinBox3_attributeChangedCallback_def assign_input_value_def addEventListeners_def
  template_content_def user_edit_def Let_def

lemma SpinBox4_redundant_write:
  assumes "SpinBox4_idle this"
  shows "SpinBox4_step (SetValue (SpinBox4_get_value this)) this = Returns this"
proof -
  from assms obtain v where h: "\<not> renderScheduled this" "state this ''value'' = Some v"
    "SpinBox4_get_value this = v"
    by (rule SpinBox4_idleE)
  then have "merge (state this) [(''value'', v)] = state this"
    by (simp add: map_upd_triv)
  then have "SpinBox4_set_value v this = this"
    unfolding SpinBox4_set_value_def by (rule setState_redundant)
  with h show ?thesis by (simp add: turn_Returns renderChanges_idle)
qed


lemma parseIntAttr_number: "(\<exists>i. parseIntAttr a = JInt i) \<or> parseIntAttr a = JNaN"
  by (simp add: parseIntAttr_def parseIntString_def Let_def split: option.splits prod.splits)

lemma ToNumber_number: "ToNumber (JInt n) = Some (JInt n)" "ToNumber JNaN = Some JNaN"
  by (simp_all add: ToNumber_def)

lemma SpinBox4_attribute_idle:
  assumes "SpinBox4_idle c"
  shows "\<exists>c'. SpinBox4_step (AttributeChanged ''value'' new) c = Returns c' \<and>
     SpinBox4_idle c' \<and> SpinBox4_get_value c' = parseIntAttr new \<and>
     shownText (element c') = Some (ToString (parseIntAttr new))"
  using SpinBox4_write_idle [OF assms, of "parseIntAttr new"]
  by (auto simp: turn_Returns SpinBox4_attributeChangedCallback_def)

lemma SpinBox4_button_idle:
  assumes "SpinBox4_idle c" "ToNumber (SpinBox4_get_value c) = Some n"
  shows "\<exists>c'. SpinBox4_step PressDown c = Returns c' \<and> SpinBox4_idle c' \<and>
           SpinBox4_get_value c' = addInt n (- 1) \<and>
           shownText (element c') = Some (ToString (addInt n (- 1)))"
    and "\<exists>c'. SpinBox4_step PressUp c = Returns c' \<and> SpinBox4_idle c' \<and>
           SpinBox4_get_value c' = addInt n 1 \<and>
           shownText (element c') = Some (ToString (addInt n 1))"
  using SpinBox4_write_idle [OF assms(1), of "addInt n (- 1)"]
    SpinBox4_write_idle [OF assms(1), of "addInt n 1"] SpinBox4_press_idle [OF assms]
  by auto

lemma SpinBox1_button:
  assumes "wired_once this" "shadowRoot this \<noteq> None" "ToNumber (SpinBox1_get_value this) = Some n"
  shows "\<exists>this'. SpinBox1_step PressDown this = Returns this' \<and>
           SpinBox1_get_value this' = addInt n (- 1) \<and>
           shownText this' = Some (ToString (addInt n (- 1)))"
    and "\<exists>this'. SpinBox1_step PressUp this = Returns this' \<and>
           SpinBox1_get_value this' = addInt n 1 \<and>
           shownText this' = Some (ToString (addInt n 1))"
  using wired_once_rootD [OF assms(1,2)] assms(3)
  by (auto simp: dispatch_one SpinBox1_onDownButton_def SpinBox1_onUpButton_def
      SpinBox1_set_value_root SpinBox1_get_value_def shownText_def assign_input_value_def)

lemma SpinBox3_button:
  assumes "wired_once this" "shadowRoot this \<noteq> None" "ToNumber (SpinBox3_get_value this) = Some n"
  shows "\<exists>this'. SpinBox3_step PressDown this = Returns this' \<and>
           SpinBox3_get_value this' = addInt n (- 1) \<and>
           shownText this' = Some (ToString (addInt n (- 1)))"
    and "\<exists>this'. SpinBox3_step PressUp this = Returns this' \<and>
           SpinBox3_get_value this' = addInt n 1 \<and>
           shownText this' = Some (ToString (addInt n 1))"
  using wired_once_rootD [OF assms(1,2)] assms(3)
  by (auto simp: dispatch_one SpinBox3_onDownButton_def SpinBox3_onUpButton_def
      SpinBox3_set_value_root SpinBox3_get_value_def shownText_def assign_input_value_def)

lemma connected_example:
  "wired_once \<lparr>shadowRoot = Some \<lparr>input_value = ''0'', input_writes = 1, input_listeners = 1,
                               downButton_listeners = 1, upButton_listeners = 1\<rparr>,
           attachShadow_calls = 1, priv_value = JInt 0\<rparr>"
  by (simp add: wired_once_def)



lemma SpinBox4_get_value_set: "SpinBox4_get_value (SpinBox4_set_value w this) = w"
  by (simp add: SpinBox4_get_value_def SpinBox4_set_value_def setState_fields field_def)

lemma flagged_once_setState: "flagged_once (setState p this) = flagged_once this"
  by (simp add: flagged_once_def passFlags_def setState_fields)

lemma flagged_once_element: "flagged_once (this\<lparr>element := el\<rparr>) = flagged_once this"
  by (simp add: flagged_once_def passFlags_def)

lemma flagged_once_write:
  assumes "flagged_once this"
    and "renderChanges SpinBox4_render (SpinBox4_set_value w this) = Returns this'"
  shows "flagged_once this'"
proof -
  from assms(1) have "flagged_once (SpinBox4_set_value w this)"
    by (simp add: SpinBox4_set_value_def flagged_once_setState)
  from flagged_once_renderChanges [OF this assms(2)] show ?thesis .
qed

lemma SpinBox4_step_flagged:
  assumes "SpinBox4_idle this" "flagged_once this" "stateAfter (SpinBox4_step e this) = Some this'"
  shows "flagged_once this'"
proof -
  from assms(1) obtain root where h: "\<not> renderScheduled this"
    "shadowRoot (element this) = Some root" "input_listeners root = 1"
    by (rule SpinBox4_idleE)
  have ret: "\<And>c w. SpinBox4_idle c \<Longrightarrow> \<exists>c'. renderChanges SpinBox4_render (SpinBox4_set_value w c) = Returns c'"
    using SpinBox4_write_idle by blast
  show ?thesis
  proof (cases e)
    case Connect
    with assms show ?thesis by simp
  next
    case Disconnect
    with assms show ?thesis by simp
  next
    case (SetValue w)
    with ret [OF assms(1), of w] assms(3) flagged_once_write [OF assms(2), of w]
    show ?thesis by (auto simp: turn_Returns)
  next
    case (AttributeChanged a new)
    show ?thesis
    proof (cases "a = ''value''")
      case True
      with AttributeChanged ret [OF assms(1), of "parseIntAttr new"] assms(3)
        flagged_once_write [OF assms(2), of "parseIntAttr new"]
      show ?thesis by (auto simp: turn_Returns SpinBox4_attributeChangedCallback_def)
    next
      case False
      with AttributeChanged assms h show ?thesis
        by (simp add: turn_Returns SpinBox4_attributeChangedCallback_def renderChanges_idle)
    qed
  next
    case (EditInput t)
    define this1 where "this1 = this\<lparr>element := (element this)\<lparr>shadowRoot := Some (user_edit t root)\<rparr>\<rparr>"
    have f1: "flagged_once this1"
      using assms(2) by (simp add: this1_def flagged_once_element)
    have step: "SpinBox4_step (EditInput t) this =
        renderChanges SpinBox4_render (SpinBox4_set_value (JStr t) this1)"
      using h by (simp add: this1_def dispatch_one turn_def SpinBox4_onInput_def user_edit_def)
    from SpinBox4_edit_idle [OF assms(1), of t] obtain c' where
      "SpinBox4_step (EditInput t) this = Returns c'" by blast
    with step EditInput assms(3) flagged_once_write [OF f1, of "JStr t"] show ?thesis
      by auto
  next
    case PressDown
    show ?thesis
    proof (cases "ToNumber (SpinBox4_get_value this)")
      case None
      with SpinBox4_press_unmodelled(1) [OF assms(1)] PressDown assms(3) show ?thesis by simp
    next
      case (Some n)
      with SpinBox4_press_idle(1) [OF assms(1)] ret [OF assms(1), of "addInt n (- 1)"]
        flagged_once_write [OF assms(2), of "addInt n (- 1)"] PressDown assms(3)
      show ?thesis by auto
    qed
  next
    case PressUp
    show ?thesis
    proof (cases "ToNumber (SpinBox4_get_value this)")
      case None
      with SpinBox4_press_unmodelled(2) [OF assms(1)] PressUp assms(3) show ?thesis by simp
    next
      case (Some n)
      with SpinBox4_press_idle(2) [OF assms(1)] ret [OF assms(1), of "addInt n 1"]
        flagged_once_write [OF assms(2), of "addInt n 1"] PressUp assms(3)
      show ?thesis by auto
    qed
  qed
qed

lemma flagged_once_idle_at: "flagged_once (idle_at v)"
  by (simp add: flagged_once_def passFlags_def idle_at_def)

lemma SpinBox4_run_flagged:
  assumes "SpinBox4_run evs = Some this"
  shows "SpinBox4_idle this \<and> flagged_once this"
proof -
  have "run SpinBox4_step evs (idle_at (JInt 0)) = Some this"
    using assms by (simp add: SpinBox4_run_def SpinBox4_attached_eq)
  from run_invariant [of "\<lambda>c. SpinBox4_idle c \<and> flagged_once c" SpinBox4_step "idle_at (JInt 0)" evs this,
      OF _ _ this]
  show ?thesis
    using SpinBox4_step_idle SpinBox4_step_flagged SpinBox4_idle_at flagged_once_idle_at by blast
qed

lemma SpinBox4_idle_passes: "SpinBox4_idle this \<Longrightarrow> flagged_once this \<Longrightarrow> passes this \<noteq> []"
  by (auto simp: SpinBox4_idle_def flagged_once_def)

section \<open>The claims about the reactive mixin\<close>

text \<open>
  C2. An update whose merge over the current snapshot is field-wise equal to the current
  snapshot leaves the instance as it is: no render pass is scheduled, and the end of the
  turn runs none. Any other update makes the merged snapshot the current one and
  leaves a render pass scheduled. No update runs a pass itself.
\<close>

theorem setState_merge_semantics:
  "(merge (state this) p = state this \<longrightarrow>
      setState p this = this \<and>
      (\<not> renderScheduled this \<longrightarrow> renderChanges render (setState p this) = Returns this)) \<and>
   (merge (state this) p \<noteq> state this \<longrightarrow>
      state (setState p this) = merge (state this) p \<and> renderScheduled (setState p this)) \<and>
   passes (setState p this) = passes this \<and>
   renderCount (setState p this) = renderCount this"
  by (simp add: setState_redundant setState_fields fieldsChanged_empty_iff renderChanges_def)

theorem setState_merge_semantics_witness:
  "setState [(''value'', JInt 0)] (idle_at (JInt 0)) = idle_at (JInt 0) \<and>
   renderChanges SpinBox4_render (setState [(''value'', JInt 0)] (idle_at (JInt 0)))
     = Returns (idle_at (JInt 0)) \<and>
   state (setState [(''value'', JInt 1)] (idle_at (JInt 0))) = [''value'' \<mapsto> JInt 1] \<and>
   renderScheduled (setState [(''value'', JInt 1)] (idle_at (JInt 0)))"
proof -
  have same: "merge (state (idle_at (JInt 0))) [(''value'', JInt 0)] = state (idle_at (JInt 0))"
    by (simp add: idle_at_def)
  have other: "merge (state (idle_at (JInt 0))) [(''value'', JInt 1)] \<noteq> state (idle_at (JInt 0))"
    by (auto simp: idle_at_def dest: map_upd_eqD1)
  have idle: "\<not> renderScheduled (idle_at (JInt 0))"
    by (simp add: idle_at_def)
  have m: "merge (state (idle_at (JInt 0))) [(''value'', JInt 1)] = [''value'' \<mapsto> JInt 1]"
    by (simp add: idle_at_def)
  show ?thesis
    using setState_merge_semantics [of "idle_at (JInt 0)" "[(''value'', JInt 0)]" SpinBox4_render]
      setState_merge_semantics [of "idle_at (JInt 0)" "[(''value'', JInt 1)]" SpinBox4_render]
      same other idle m
    by (simp add: renderChanges_def)
qed

text \<open>
  C1, as the claim states it, fails: a burst of updates each of which leaves the
  snapshot as it is triggers no render pass at all. Two redundant writes of the value 0 to
  an idle spin box showing 0 leave the instance exactly as it was, its one completed pass
  included.
\<close>

theorem redundant_burst_renders_nothing:
  "renderChanges SpinBox4_render
     (updates [[(''value'', JInt 0)], [(''value'', JInt 0)]] (idle_at (JInt 0)))
   = Returns (idle_at (JInt 0))"
  by (simp add: setState_def idle_at_def renderChanges_def Let_def)

text \<open>
  C1, amended. On an instance with no pass pending and an empty accumulated change set
  (that is, since the last completed render), \<open>N\<close> updates issued within one turn trigger
  at most one render pass: exactly one when at least one update changed a field, none
  when every update was redundant. That pass observes the final merged snapshot and the
  union of the fields changed across the \<open>N\<close> updates. (The render callback is taken
  to return on that snapshot.)
\<close>

theorem coalesced_render_pass:
  assumes idle: "\<not> renderScheduled this" "changedSinceLastRender this = {}"
    and ret: "render (mergeAll ps (state this)) (changedAcross ps (state this)) (renderCount this = 0)
                (element this) = Returns el"
  shows "\<exists>this'. renderChanges render (updates ps this) = Returns this' \<and>
           state this' = mergeAll ps (state this) \<and>
           \<not> renderScheduled this' \<and>
           passes this' = passes this @
             (if changedAcross ps (state this) = {} then []
              else [(mergeAll ps (state this), changedAcross ps (state this), renderCount this = 0)])"
proof (cases "changedAcross ps (state this) = {}")
  case True
  with idle have "\<not> renderScheduled (updates ps this)"
    by (simp add: updates_scheduled)
  then have "renderChanges render (updates ps this) = Returns (updates ps this)"
    by (rule renderChanges_idle)
  with True idle show ?thesis
    by (simp add: updates_state updates_scheduled updates_rest)
next
  case False
  then have pending: "renderScheduled (updates ps this)"
    by (simp add: updates_scheduled)
  from ret idle have r: "render (state (updates ps this)) (changedSinceLastRender (updates ps this))
      (renderCount (updates ps this) = 0) (element (updates ps this)) = Returns el"
    by (simp add: updates_state updates_changed updates_rest)
  from renderChanges_pending [of "updates ps this" render el, OF pending r] False idle show ?thesis
    by (simp add: updates_state updates_changed updates_rest)
qed


theorem coalesced_render_pass_witness:
  "\<exists>this'. renderChanges SpinBox4_render
       (updates [[(''value'', JInt 1)], [(''step'', JInt 3)], [(''value'', JInt 2)]] (idle_at (JInt 0)))
     = Returns this' \<and>
     state this' = [''value'' \<mapsto> JInt 2, ''step'' \<mapsto> JInt 3] \<and>
     \<not> renderScheduled this' \<and>
     passes this' = passes (idle_at (JInt 0)) @
       [([''value'' \<mapsto> JInt 2, ''step'' \<mapsto> JInt 3], {''value'', ''step''}, False)]"
proof -
  let ?ps = "[[(''value'', JInt 1)], [(''step'', JInt 3)], [(''value'', JInt 2)]]"
  let ?c = "idle_at (JInt 0)"
  have idle: "\<not> renderScheduled ?c" "changedSinceLastRender ?c = {}"
    by (simp_all add: idle_at_def)
  have m: "mergeAll ?ps (state ?c) = [''value'' \<mapsto> JInt 2, ''step'' \<mapsto> JInt 3]"
    by (auto simp: idle_at_def)
  have c: "changedAcross ?ps (state ?c) = {''value'', ''step''}"
    by (auto simp: idle_at_def fieldsChanged_def)
  obtain el where r: "SpinBox4_render (mergeAll ?ps (state ?c)) (changedAcross ?ps (state ?c))
      (renderCount ?c = 0) (element ?c) = Returns el"
    using SpinBox4_render_returns by blast
  have rc: "renderCount ?c = 1"
    by (simp add: idle_at_def)
  from coalesced_render_pass [where this = "?c" and ps = "?ps" and render = SpinBox4_render and el = el,
      OF idle r]
  show ?thesis
    unfolding m c rc by simp
qed

text \<open>
  C3. After the attachment of an instance and any number of turns, each a burst of
  updates and the end of the turn, the first completed render pass is the one that
  observed the first-render flag as true, and every later pass observed it as false
  (the render callback being taken to return). So it is for the reactive spin box
  after any run of events, whose render method wires the listeners on the flag: the
  element stays wired once.
\<close>

theorem first_render_flag:
  "(attach defaults render el = Returns this0 \<and> turns render pss this0 = Returns this \<longrightarrow>
      passFlags this = True # replicate (length (passes this) - 1) False) \<and>
   (SpinBox4_run evs = Some that \<longrightarrow>
      passFlags that = True # replicate (length (passes that) - 1) False \<and>
      wired_once (element that))"
proof (intro conjI impI)
  assume a: "attach defaults render el = Returns this0 \<and> turns render pss this0 = Returns this"
  from attach_first [of defaults render el this0] a
  have f: "flagged_once this0" and l: "length (passes this0) = 1"
    by simp_all
  from flagged_once_turns [OF f] a have "flagged_once this" by blast
  moreover from turns_passes_grow [of render pss this0 this] a l have "passes this \<noteq> []" by auto
  ultimately show "passFlags this = True # replicate (length (passes this) - 1) False"
    by (simp add: flagged_once_def)
next
  assume r: "SpinBox4_run evs = Some that"
  from SpinBox4_run_flagged [OF r] have i: "SpinBox4_idle that" and f: "flagged_once that"
    by simp_all
  from SpinBox4_idle_passes [OF i f] f
  show "passFlags that = True # replicate (length (passes that) - 1) False"
    by (simp add: flagged_once_def)
  from i show "wired_once (element that)" by (simp add: SpinBox4_idle_def)
qed

theorem first_render_flag_witness:
  "(\<exists>this. turns SpinBox4_render [[[(''value'', JInt 1)]], [[(''value'', JInt 1)]], [[(''value'', JInt 2)]]]
       (idle_at (JInt 0)) = Returns this \<and>
     passFlags this = [True, False, False]) \<and>
   (\<exists>that. SpinBox4_run [PressUp, EditInput ''7''] = Some that \<and>
     passFlags that = [True, False, False] \<and> wired_once (element that))"
proof -
  let ?pss = "[[[(''value'', JInt 1)]], [[(''value'', JInt 1)]], [[(''value'', JInt 2)]]]"
  have a: "attach SpinBox4_defaultState SpinBox4_render \<lparr>shadowRoot = None, attachShadow_calls = 0\<rparr>
      = Returns (idle_at (JInt 0))"
    using SpinBox4_attached_eq by (simp add: SpinBox4_attached_def)
  obtain this1 where t1: "renderChanges SpinBox4_render (SpinBox4_set_value (JInt 1) (idle_at (JInt 0)))
      = Returns this1" and i1: "SpinBox4_idle this1" and v1: "SpinBox4_get_value this1 = JInt 1"
    and p1: "length (passes this1) = Suc (length (passes (idle_at (JInt 0))))"
    using SpinBox4_write_idle [OF SpinBox4_idle_at, of "JInt 1" "JInt 0"]
    by (auto simp: SpinBox4_get_value_def idle_at_def field_def)
  obtain this2 where t2: "renderChanges SpinBox4_render (SpinBox4_set_value (JInt 1) this1)
      = Returns this2" and i2: "SpinBox4_idle this2" and v2: "SpinBox4_get_value this2 = JInt 1"
    and p2: "passes this2 = passes this1"
    using SpinBox4_write_idle [OF i1, of "JInt 1"] v1 by auto
  obtain this3 where t3: "renderChanges SpinBox4_render (SpinBox4_set_value (JInt 2) this2)
      = Returns this3" and p3: "length (passes this3) = Suc (length (passes this2))"
    using SpinBox4_write_idle [OF i2, of "JInt 2"] v2 by auto
  have t: "turns SpinBox4_render ?pss (idle_at (JInt 0)) = Returns this3"
    using t1 t2 t3 by (simp add: SpinBox4_set_value_def)
  have l: "length (passes this3) = 3"
    using p1 p2 p3 by (simp add: idle_at_def)
  have g: "ToNumber (SpinBox4_get_value (idle_at (JInt 0))) = Some (JInt 0)"
    by (simp add: SpinBox4_get_value_def idle_at_def field_def ToNumber_number)
  obtain c1 where s1: "SpinBox4_step PressUp (idle_at (JInt 0)) = Returns c1"
    and j1: "SpinBox4_idle c1" and w1: "SpinBox4_get_value c1 = JInt 1"
    and q1: "length (passes c1) = 2"
    using SpinBox4_press_idle(2) [OF SpinBox4_idle_at g] SpinBox4_write_idle [OF SpinBox4_idle_at, of "JInt 1" "JInt 0"]
    by (auto simp: SpinBox4_get_value_def idle_at_def field_def)
  have e: "SpinBox4_step (EditInput ''7'') c1 =
      renderChanges SpinBox4_render (SpinBox4_set_value (JStr ''7'')
        (c1\<lparr>element := (element c1)\<lparr>shadowRoot := map_option (user_edit ''7'') (shadowRoot (element c1))\<rparr>\<rparr>))"
    using j1
    by (auto elim!: SpinBox4_idleE simp: dispatch_one turn_def SpinBox4_onInput_def user_edit_def)
  obtain c2 where s2: "SpinBox4_step (EditInput ''7'') c1 = Returns c2"
    using SpinBox4_edit_idle [OF j1] by blast
  have r: "SpinBox4_run [PressUp, EditInput ''7''] = Some c2"
    using s1 s2 by (simp add: SpinBox4_run_def SpinBox4_attached_eq)
  from j1 obtain root1 where k: "\<not> renderScheduled c1" "changedSinceLastRender c1 = {}"
    "0 < renderCount c1" "shadowRoot (element c1) = Some root1" "state c1 ''value'' = Some (JInt 1)"
    using w1 by (auto elim!: SpinBox4_idleE)
  let ?c = "c1\<lparr>element := (element c1)\<lparr>shadowRoot := Some (user_edit ''7'' root1)\<rparr>\<rparr>"
  have "\<exists>c'. renderChanges SpinBox4_render (SpinBox4_set_value (JStr ''7'') ?c) = Returns c' \<and>
      passes c' = passes ?c @ [((state ?c)(''value'' \<mapsto> JStr ''7''), {''value''}, False)]"
    using SpinBox4_write [of ?c "user_edit ''7'' root1" "JInt 1" "JStr ''7''"] k by auto
  with e s2 k have q2: "length (passes c2) = 3"
    using q1 by auto
  from first_render_flag [of SpinBox4_defaultState SpinBox4_render
      "\<lparr>shadowRoot = None, attachShadow_calls = 0\<rparr>" "idle_at (JInt 0)" ?pss this3
      "[PressUp, EditInput ''7'']" c2] a t l r q2
  have "passFlags this3 = [True, False, False]" "passFlags c2 = [True, False, False]"
    "wired_once (element c2)"
    by (simp_all add: numeral_3_eq_3)
  with t r show ?thesis by blast
qed

section \<open>The claims about the spin boxes\<close>

text \<open>
  C7. Whatever happens to an instance of the hand-rolled spin box or of the spin box on
  the template mixin (attaching, detaching, reattaching, writes of the property and of
  the attribute, edits and button presses), at most one shadow root is ever created for
  it and populated from the template; once the instance has been attached, exactly one
  was created, and the input field and the two buttons carry exactly one listener each.
  Every sequence of attachments and detachments runs to its end.
\<close>

theorem wiring_happens_once:
  "(run SpinBox1_step evs SpinBox1_constructor = Some this \<longrightarrow>
      attachShadow_calls this \<le> 1 \<and>
      (Connect \<in> set evs \<longrightarrow>
         attachShadow_calls this = 1 \<and>
         (\<exists>root. shadowRoot this = Some root \<and> input_listeners root = 1 \<and>
            downButton_listeners root = 1 \<and> upButton_listeners root = 1))) \<and>
   (run SpinBox3_step evs SpinBox3_constructor = Some that \<longrightarrow>
      attachShadow_calls that \<le> 1 \<and>
      (Connect \<in> set evs \<longrightarrow>
         attachShadow_calls that = 1 \<and>
         (\<exists>root. shadowRoot that = Some root \<and> input_listeners root = 1 \<and>
            downButton_listeners root = 1 \<and> upButton_listeners root = 1))) \<and>
   (set evs \<subseteq> {Connect, Disconnect} \<longrightarrow>
      (\<exists>this'. run SpinBox1_step evs SpinBox1_constructor = Some this') \<and>
      (\<exists>that'. run SpinBox3_step evs SpinBox3_constructor = Some that'))"
proof (intro conjI impI)
  assume r: "run SpinBox1_step evs SpinBox1_constructor = Some this"
  from SpinBox1_run_wired [OF wired_once_constructors(1) r]
  have w: "wired_once this" and c: "shadowRoot this \<noteq> None \<longleftrightarrow> Connect \<in> set evs"
    by (simp_all add: constructors_null)
  from w show "attachShadow_calls this \<le> 1" by (rule wired_once_calls)
  assume "Connect \<in> set evs"
  with c have n: "shadowRoot this \<noteq> None" by simp
  from wired_once_rootD [OF w n] show "attachShadow_calls this = 1"
    and "\<exists>root. shadowRoot this = Some root \<and> input_listeners root = 1 \<and>
            downButton_listeners root = 1 \<and> upButton_listeners root = 1"
    by simp_all
next
  assume r: "run SpinBox3_step evs SpinBox3_constructor = Some that"
  from SpinBox3_run_wired [OF wired_once_constructors(2) r]
  have w: "wired_once that" and c: "Connect \<in> set evs \<longrightarrow> shadowRoot that \<noteq> None"
    by simp_all
  from w show "attachShadow_calls that \<le> 1" by (rule wired_once_calls)
  assume "Connect \<in> set evs"
  with c have n: "shadowRoot that \<noteq> None" by simp
  from wired_once_rootD [OF w n] show "attachShadow_calls that = 1"
    and "\<exists>root. shadowRoot that = Some root \<and> input_listeners root = 1 \<and>
            downButton_listeners root = 1 \<and> upButton_listeners root = 1"
    by simp_all
next
  assume s: "set evs \<subseteq> {Connect, Disconnect}"
  show "\<exists>this'. run SpinBox1_step evs SpinBox1_constructor = Some this'"
    using run_attach_detach [of SpinBox1_step evs SpinBox1_constructor] SpinBox1_connect_returns s
    by simp
  show "\<exists>that'. run SpinBox3_step evs SpinBox3_constructor = Some that'"
    using run_attach_detach [of SpinBox3_step evs SpinBox3_constructor] SpinBox3_connect_returns s
    by simp
qed

theorem wiring_happens_once_witness:
  "run SpinBox1_step [Connect, Disconnect, Connect] SpinBox1_constructor =
     Some \<lparr>shadowRoot = Some \<lparr>input_value = ''0'', input_writes = 2, input_listeners = 1,
                               downButton_listeners = 1, upButton_listeners = 1\<rparr>,
           attachShadow_calls = 1, priv_value = JInt 0\<rparr> \<and>
   run SpinBox3_step [Connect, Disconnect, Connect] SpinBox3_constructor =
     Some \<lparr>shadowRoot = Some \<lparr>input_value = ''0'', input_writes = 2, input_listeners = 1,
                               downButton_listeners = 1, upButton_listeners = 1\<rparr>,
           attachShadow_calls = 1, priv_value = JInt 0\<rparr>"
  using wiring_happens_once [of "[Connect, Disconnect, Connect]"
      "\<lparr>shadowRoot = Some \<lparr>input_value = ''0'', input_writes = 2, input_listeners = 1,
                               downButton_listeners = 1, upButton_listeners = 1\<rparr>,
           attachShadow_calls = 1, priv_value = JInt 0\<rparr>"
      "\<lparr>shadowRoot = Some \<lparr>input_value = ''0'', input_writes = 2, input_listeners = 1,
                               downButton_listeners = 1, upButton_listeners = 1\<rparr>,
           attachShadow_calls = 1, priv_value = JInt 0\<rparr>"]
  by (simp add: eval_defs showInt_examples)

text \<open>
  C9, as the claim states it, fails in one part: a write of the property before the
  element was ever connected does throw, but only after the value was stored. The
  property then reads the written value, and the first connection renders it.
\<close>

theorem write_before_connect_is_stored:
  "SpinBox1_set_value (JInt 5) SpinBox1_constructor =
     Throws TypeError \<lparr>shadowRoot = None, attachShadow_calls = 0, priv_value = JInt 5\<rparr> \<and>
   SpinBox1_get_value \<lparr>shadowRoot = None, attachShadow_calls = 0, priv_value = JInt 5\<rparr> = JInt 5 \<and>
   run SpinBox1_step [SetValue (JInt 5), Connect] SpinBox1_constructor =
     Some \<lparr>shadowRoot = Some \<lparr>input_value = ''5'', input_writes = 1, input_listeners = 1,
                               downButton_listeners = 1, upButton_listeners = 1\<rparr>,
           attachShadow_calls = 1, priv_value = JInt 5\<rparr>"
  by (simp add: eval_defs showInt_examples SpinBox1_get_value_def)

text \<open>
  C9, amended. In the hand-rolled example, as long as the element was never connected a
  write of the property, also through a change of the attribute, stores the value and
  then throws on the missing shadow root; the first connection then renders the stored
  value. Once the element was connected, the write returns, and the field shows the value.
\<close>

theorem write_before_connect:
  assumes "run SpinBox1_step evs SpinBox1_constructor = Some this"
  shows "(Connect \<notin> set evs \<longrightarrow>
            SpinBox1_set_value v this = Throws TypeError (this\<lparr>priv_value := v\<rparr>) \<and>
            SpinBox1_attributeChangedCallback ''value'' old new this =
              Throws TypeError (this\<lparr>priv_value := parseIntAttr new\<rparr>) \<and>
            (\<exists>this'. SpinBox1_connectedCallback (this\<lparr>priv_value := v\<rparr>) = Returns this' \<and>
               SpinBox1_get_value this' = v \<and> shownText this' = Some (ToString v))) \<and>
         (Connect \<in> set evs \<longrightarrow>
            (\<exists>this'. SpinBox1_set_value v this = Returns this' \<and>
               SpinBox1_get_value this' = v \<and> shownText this' = Some (ToString v)))"
proof -
  from SpinBox1_run_wired [OF wired_once_constructors(1) assms]
  have c: "shadowRoot this \<noteq> None \<longleftrightarrow> Connect \<in> set evs"
    by (simp add: constructors_null)
  show ?thesis
  proof (cases "shadowRoot this")
    case None
    with c have "Connect \<notin> set evs" by simp
    with None show ?thesis
      by (simp add: SpinBox1_set_value_null SpinBox1_attributeChangedCallback_def
          SpinBox1_connectedCallback_null SpinBox1_get_value_def shownText_def
          assign_input_value_def)
  next
    case (Some root)
    with c have "Connect \<in> set evs" by simp
    with Some show ?thesis
      by (simp add: SpinBox1_set_value_root SpinBox1_get_value_def shownText_def
          assign_input_value_def)
  qed
qed

theorem write_before_connect_witness:
  "SpinBox1_set_value (JInt 7) SpinBox1_constructor =
     Throws TypeError (SpinBox1_constructor\<lparr>priv_value := JInt 7\<rparr>) \<and>
   (\<exists>this'. SpinBox1_set_value (JInt 7)
       \<lparr>shadowRoot = Some \<lparr>input_value = ''0'', input_writes = 1, input_listeners = 1,
                               downButton_listeners = 1, upButton_listeners = 1\<rparr>,
           attachShadow_calls = 1, priv_value = JInt 0\<rparr> = Returns this' \<and>
      SpinBox1_get_value this' = JInt 7 \<and> shownText this' = Some (ToString (JInt 7)))"
proof -
  have a: "run SpinBox1_step [] SpinBox1_constructor = Some SpinBox1_constructor"
    by simp
  have b: "run SpinBox1_step [Connect] SpinBox1_constructor =
      Some \<lparr>shadowRoot = Some \<lparr>input_value = ''0'', input_writes = 1, input_listeners = 1,
                               downButton_listeners = 1, upButton_listeners = 1\<rparr>,
           attachShadow_calls = 1, priv_value = JInt 0\<rparr>"
    by (simp add: eval_defs showInt_examples)
  from write_before_connect [OF a, of "JInt 7"] write_before_connect [OF b, of "JInt 7"]
  show ?thesis by simp
qed

text \<open>
  C10, as the claim states it, fails for a hand-rolled spin box that was never connected:
  the write of the value it already holds rewrites no field (there is none) and throws.
\<close>

theorem redundant_write_unconnected_throws:
  "SpinBox1_get_value SpinBox1_constructor = JInt 0 \<and>
   shownText SpinBox1_constructor = None \<and>
   SpinBox1_set_value (JInt 0) SpinBox1_constructor = Throws TypeError SpinBox1_constructor"
  by (simp add: eval_defs SpinBox1_get_value_def shownText_def)

text \<open>
  C10, amended. In the hand-rolled example, once the shadow root exists, and in the
  example on the template mixin always, every write of the property assigns the text of
  the value to the input field once more, whether or not the value is the one already
  held. In the example on the reactive mixin the write of the value already held runs no
  render pass and leaves the element as it is, while the write of another value runs one
  pass and assigns the field once.
\<close>

theorem writes_always_render:
  "(shadowRoot this = Some root \<longrightarrow>
      SpinBox1_set_value v this =
        Returns (this\<lparr>priv_value := v,
                      shadowRoot := Some (root\<lparr>input_value := ToString v,
                                                input_writes := Suc (input_writes root)\<rparr>)\<rparr>)) \<and>
   (\<exists>that'. SpinBox3_set_value v that = Returns that' \<and> SpinBox3_get_value that' = v \<and>
      shownText that' = Some (ToString v) \<and> inputWrites that' = Suc (inputWrites that)) \<and>
   (SpinBox4_idle c \<longrightarrow>
      SpinBox4_step (SetValue (SpinBox4_get_value c)) c = Returns c \<and>
      (v \<noteq> SpinBox4_get_value c \<longrightarrow>
         (\<exists>c'. SpinBox4_step (SetValue v) c = Returns c' \<and> SpinBox4_get_value c' = v \<and>
            length (passes c') = Suc (length (passes c)) \<and>
            inputWrites (element c') = Suc (inputWrites (element c)))))"
proof (intro conjI impI)
  assume "shadowRoot this = Some root"
  then show "SpinBox1_set_value v this =
        Returns (this\<lparr>priv_value := v,
                      shadowRoot := Some (root\<lparr>input_value := ToString v,
                                                input_writes := Suc (input_writes root)\<rparr>)\<rparr>)"
    by (simp add: SpinBox1_set_value_root assign_input_value_def)
next
  show "\<exists>that'. SpinBox3_set_value v that = Returns that' \<and> SpinBox3_get_value that' = v \<and>
      shownText that' = Some (ToString v) \<and> inputWrites that' = Suc (inputWrites that)"
    by (cases "shadowRoot that")
      (simp_all add: SpinBox3_set_value_null SpinBox3_set_value_root SpinBox3_get_value_def
        shownText_def inputWrites_def assign_input_value_def addEventListeners_def
        template_content_def)
next
  assume "SpinBox4_idle c"
  then show "SpinBox4_step (SetValue (SpinBox4_get_value c)) c = Returns c"
    by (rule SpinBox4_redundant_write)
next
  assume i: "SpinBox4_idle c" and n: "v \<noteq> SpinBox4_get_value c"
  from SpinBox4_write_idle [OF i, of v] n
  show "\<exists>c'. SpinBox4_step (SetValue v) c = Returns c' \<and> SpinBox4_get_value c' = v \<and>
            length (passes c') = Suc (length (passes c)) \<and>
            inputWrites (element c') = Suc (inputWrites (element c))"
    by (auto simp: turn_Returns)
qed

theorem writes_always_render_witness:
  "SpinBox1_set_value (JInt 0)
       \<lparr>shadowRoot = Some \<lparr>input_value = ''0'', input_writes = 1, input_listeners = 1,
                               downButton_listeners = 1, upButton_listeners = 1\<rparr>,
           attachShadow_calls = 1, priv_value = JInt 0\<rparr> =
     Returns \<lparr>shadowRoot = Some \<lparr>input_value = ''0'', input_writes = 2, input_listeners = 1,
                               downButton_listeners = 1, upButton_listeners = 1\<rparr>,
           attachShadow_calls = 1, priv_value = JInt 0\<rparr> \<and>
   SpinBox4_step (SetValue (JInt 0)) (idle_at (JInt 0)) = Returns (idle_at (JInt 0)) \<and>
   (\<exists>c'. SpinBox4_step (SetValue (JInt 1)) (idle_at (JInt 0)) = Returns c' \<and>
      SpinBox4_get_value c' = JInt 1 \<and> length (passes c') = 2 \<and> inputWrites (element c') = 2)"
proof -
  have g: "SpinBox4_get_value (idle_at (JInt 0)) = JInt 0"
    by (simp add: SpinBox4_get_value_def idle_at_def field_def)
  have l: "length (passes (idle_at (JInt 0))) = 1" "inputWrites (element (idle_at (JInt 0))) = 1"
    by (simp_all add: idle_at_def inputWrites_def assign_input_value_def addEventListeners_def
        template_content_def)
  from writes_always_render [of
      "\<lparr>shadowRoot = Some \<lparr>input_value = ''0'', input_writes = 1, input_listeners = 1,
                               downButton_listeners = 1, upButton_listeners = 1\<rparr>,
           attachShadow_calls = 1, priv_value = JInt 0\<rparr>"
      "\<lparr>input_value = ''0'', input_writes = 1, input_listeners = 1,
                               downButton_listeners = 1, upButton_listeners = 1\<rparr>"
      "JInt 0" SpinBox3_constructor "idle_at (JInt 0)"]
    writes_always_render [of SpinBox1_constructor template_content "JInt 1" SpinBox3_constructor
      "idle_at (JInt 0)"]
    SpinBox4_idle_at [of "JInt 0"] g l
  show ?thesis by (simp add: showInt_examples numeral_2_eq_2)
qed

text \<open>
  C6. On a spin box holding the number \<open>n\<close>, one activation of the decrement button
  yields the value \<open>n - 1\<close> and one activation of the increment button the value
  \<open>n + 1\<close>, and the field shows the decimal text of the new value: from 0, the values
  -1 and 1 and the texts \<^verbatim>\<open>-1\<close> and \<^verbatim>\<open>1\<close>. This holds for the reactive spin box between
  two turns and for the two other spin boxes once they have their shadow tree.
\<close>

theorem button_steps:
  "(SpinBox4_idle c \<and> SpinBox4_get_value c = JInt n \<longrightarrow>
      (\<exists>c'. SpinBox4_step PressDown c = Returns c' \<and> SpinBox4_get_value c' = JInt (n - 1) \<and>
         shownText (element c') = Some (showInt (n - 1))) \<and>
      (\<exists>c'. SpinBox4_step PressUp c = Returns c' \<and> SpinBox4_get_value c' = JInt (n + 1) \<and>
         shownText (element c') = Some (showInt (n + 1)))) \<and>
   (wired_once this \<and> shadowRoot this \<noteq> None \<and> SpinBox1_get_value this = JInt n \<longrightarrow>
      (\<exists>this'. SpinBox1_step PressDown this = Returns this' \<and>
         SpinBox1_get_value this' = JInt (n - 1) \<and> shownText this' = Some (showInt (n - 1))) \<and>
      (\<exists>this'. SpinBox1_step PressUp this = Returns this' \<and>
         SpinBox1_get_value this' = JInt (n + 1) \<and> shownText this' = Some (showInt (n + 1)))) \<and>
   (wired_once that \<and> shadowRoot that \<noteq> None \<and> SpinBox3_get_value that = JInt n \<longrightarrow>
      (\<exists>that'. SpinBox3_step PressDown that = Returns that' \<and>
         SpinBox3_get_value that' = JInt (n - 1) \<and> shownText that' = Some (showInt (n - 1))) \<and>
      (\<exists>that'. SpinBox3_step PressUp that = Returns that' \<and>
         SpinBox3_get_value that' = JInt (n + 1) \<and> shownText that' = Some (showInt (n + 1)))) \<and>
   showInt (0 - 1) = ''-1'' \<and> showInt (0 + 1) = ''1''"
proof (intro conjI impI)
  assume a: "SpinBox4_idle c \<and> SpinBox4_get_value c = JInt n"
  then have t: "ToNumber (SpinBox4_get_value c) = Some (JInt n)" by (simp add: ToNumber_number)
  from a SpinBox4_button_idle(1) [OF _ t]
  show "\<exists>c'. SpinBox4_step PressDown c = Returns c' \<and> SpinBox4_get_value c' = JInt (n - 1) \<and>
         shownText (element c') = Some (showInt (n - 1))"
    by auto
  from a SpinBox4_button_idle(2) [OF _ t]
  show "\<exists>c'. SpinBox4_step PressUp c = Returns c' \<and> SpinBox4_get_value c' = JInt (n + 1) \<and>
         shownText (element c') = Some (showInt (n + 1))"
    by auto
next
  assume a: "wired_once this \<and> shadowRoot this \<noteq> None \<and> SpinBox1_get_value this = JInt n"
  then have t: "ToNumber (SpinBox1_get_value this) = Some (JInt n)" by (simp add: ToNumber_number)
  from a SpinBox1_button(1) [OF _ _ t]
  show "\<exists>this'. SpinBox1_step PressDown this = Returns this' \<and>
         SpinBox1_get_value this' = JInt (n - 1) \<and> shownText this' = Some (showInt (n - 1))"
    by auto
  from a SpinBox1_button(2) [OF _ _ t]
  show "\<exists>this'. SpinBox1_step PressUp this = Returns this' \<and>
         SpinBox1_get_value this' = JInt (n + 1) \<and> shownText this' = Some (showInt (n + 1))"
    by auto
next
  assume a: "wired_once that \<and> shadowRoot that \<noteq> None \<and> SpinBox3_get_value that = JInt n"
  then have t: "ToNumber (SpinBox3_get_value that) = Some (JInt n)" by (simp add: ToNumber_number)
  from a SpinBox3_button(1) [OF _ _ t]
  show "\<exists>that'. SpinBox3_step PressDown that = Returns that' \<and>
         SpinBox3_get_value that' = JInt (n - 1) \<and> shownText that' = Some (showInt (n - 1))"
    by auto
  from a SpinBox3_button(2) [OF _ _ t]
  show "\<exists>that'. SpinBox3_step PressUp that = Returns that' \<and>
         SpinBox3_get_value that' = JInt (n + 1) \<and> shownText that' = Some (showInt (n + 1))"
    by auto
next
  show "showInt (0 - 1) = ''-1''" by (simp add: showInt_examples)
  show "showInt (0 + 1) = ''1''" by (simp add: showInt_examples)
qed

theorem button_steps_witness:
  "(\<exists>c'. SpinBox4_step PressDown (idle_at (JInt 0)) = Returns c' \<and>
      SpinBox4_get_value c' = JInt (- 1) \<and> shownText (element c') = Some ''-1'') \<and>
   (\<exists>c'. SpinBox4_step PressUp (idle_at (JInt 0)) = Returns c' \<and>
      SpinBox4_get_value c' = JInt 1 \<and> shownText (element c') = Some ''1'') \<and>
   SpinBox1_step PressDown
       \<lparr>shadowRoot = Some \<lparr>input_value = ''0'', input_writes = 1, input_listeners = 1,
                               downButton_listeners = 1, upButton_listeners = 1\<rparr>,
           attachShadow_calls = 1, priv_value = JInt 0\<rparr> =
     Returns \<lparr>shadowRoot = Some \<lparr>input_value = ''-1'', input_writes = 2, input_listeners = 1,
                               downButton_listeners = 1, upButton_listeners = 1\<rparr>,
           attachShadow_calls = 1, priv_value = JInt (- 1)\<rparr> \<and>
   SpinBox3_step PressUp
       \<lparr>shadowRoot = Some \<lparr>input_value = ''0'', input_writes = 1, input_listeners = 1,
                               downButton_listeners = 1, upButton_listeners = 1\<rparr>,
           attachShadow_calls = 1, priv_value = JInt 0\<rparr> =
     Returns \<lparr>shadowRoot = Some \<lparr>input_value = ''1'', input_writes = 2, input_listeners = 1,
                               downButton_listeners = 1, upButton_listeners = 1\<rparr>,
           attachShadow_calls = 1, priv_value = JInt 1\<rparr>"
proof -
  let ?x = "\<lparr>shadowRoot = Some \<lparr>input_value = ''0'', input_writes = 1, input_listeners = 1,
                               downButton_listeners = 1, upButton_listeners = 1\<rparr>,
           attachShadow_calls = 1, priv_value = JInt 0\<rparr>"
  have g: "SpinBox4_get_value (idle_at (JInt 0)) = JInt 0"
    by (simp add: SpinBox4_get_value_def idle_at_def field_def)
  have x: "shadowRoot ?x \<noteq> None" "SpinBox1_get_value ?x = JInt 0" "SpinBox3_get_value ?x = JInt 0"
    by (simp_all add: SpinBox1_get_value_def SpinBox3_get_value_def)
  from button_steps [of "idle_at (JInt 0)" 0 ?x ?x] SpinBox4_idle_at [of "JInt 0"] g
    connected_example x
  show ?thesis
    by (auto simp: showInt_examples shownText_def SpinBox1_get_value_def SpinBox3_get_value_def
        dispatch_one SpinBox1_onDownButton_def SpinBox3_onUpButton_def ToNumber_number
        SpinBox1_set_value_root SpinBox3_set_value_root assign_input_value_def)
qed



text \<open>
  C4, as the claim states it, fails: the property does not always hold an integer or
  \<^verbatim>\<open>NaN\<close>. After the user has typed \<^verbatim>\<open>abc\<close> into the field of a freshly attached spin
  box, the property reads the string \<^verbatim>\<open>abc\<close>.
\<close>

theorem edited_text_is_stored:
  "map_option SpinBox4_get_value (SpinBox4_run [EditInput ''abc'']) = Some (JStr ''abc'')"
proof -
  from SpinBox4_edit_idle [OF SpinBox4_idle_at [of "JInt 0"], where t = "''abc''"] obtain c' where
    "SpinBox4_step (EditInput ''abc'') (idle_at (JInt 0)) = Returns c'"
    "SpinBox4_get_value c' = JStr ''abc''"
    by blast
  then show ?thesis
    by (simp add: SpinBox4_run_def SpinBox4_attached_eq)
qed

text \<open>
  C4, amended. Reading the property returns the value of the current snapshot. A write
  of the property stores the written value as it is; a change of the attribute stores
  the result of \<^verbatim>\<open>parseInt\<close>, an integer or \<^verbatim>\<open>NaN\<close>; an edit of the input field stores
  the text of the field, a string. No path validates the value, and only the attribute
  path coerces it to an integer.
\<close>

theorem value_write_paths:
  "SpinBox4_get_value c = field (state c) ''value'' \<and>
   SpinBox4_get_value (SpinBox4_set_value w c) = w \<and>
   SpinBox4_get_value (SpinBox4_attributeChangedCallback ''value'' old new c) = parseIntAttr new \<and>
   ((\<exists>i. parseIntAttr new = JInt i) \<or> parseIntAttr new = JNaN) \<and>
   (SpinBox4_idle c \<longrightarrow>
      (\<exists>c'. SpinBox4_step (SetValue w) c = Returns c' \<and> SpinBox4_get_value c' = w) \<and>
      (\<exists>c'. SpinBox4_step (AttributeChanged ''value'' new) c = Returns c' \<and>
         SpinBox4_get_value c' = parseIntAttr new) \<and>
      (\<exists>c'. SpinBox4_step (EditInput t) c = Returns c' \<and> SpinBox4_get_value c' = JStr t))"
proof (intro conjI impI)
  show "SpinBox4_get_value c = field (state c) ''value''"
    by (simp add: SpinBox4_get_value_def)
  show "SpinBox4_get_value (SpinBox4_set_value w c) = w"
    by (rule SpinBox4_get_value_set)
  show "SpinBox4_get_value (SpinBox4_attributeChangedCallback ''value'' old new c) = parseIntAttr new"
    by (simp add: SpinBox4_attributeChangedCallback_def SpinBox4_get_value_set)
  show "(\<exists>i. parseIntAttr new = JInt i) \<or> parseIntAttr new = JNaN"
    by (rule parseIntAttr_number)
next
  assume i: "SpinBox4_idle c"
  from SpinBox4_write_idle [OF i, of w]
  show "\<exists>c'. SpinBox4_step (SetValue w) c = Returns c' \<and> SpinBox4_get_value c' = w"
    by (auto simp: turn_Returns)
  from SpinBox4_attribute_idle [OF i, of new]
  show "\<exists>c'. SpinBox4_step (AttributeChanged ''value'' new) c = Returns c' \<and>
         SpinBox4_get_value c' = parseIntAttr new"
    by auto
  from SpinBox4_edit_idle [OF i, of t]
  show "\<exists>c'. SpinBox4_step (EditInput t) c = Returns c' \<and> SpinBox4_get_value c' = JStr t"
    by auto
qed

theorem value_write_paths_witness:
  "(\<exists>c'. SpinBox4_step (SetValue (JStr ''x'')) (idle_at (JInt 0)) = Returns c' \<and>
      SpinBox4_get_value c' = JStr ''x'') \<and>
   (\<exists>c'. SpinBox4_step (AttributeChanged ''value'' (Some ''12px'')) (idle_at (JInt 0)) = Returns c' \<and>
      SpinBox4_get_value c' = JInt 12) \<and>
   (\<exists>c'. SpinBox4_step (EditInput ''1.5'') (idle_at (JInt 0)) = Returns c' \<and>
      SpinBox4_get_value c' = JStr ''1.5'')"
proof -
  have p: "parseIntAttr (Some ''12px'') = JInt 12"
    by (simp add: parseIntAttr_def parseIntString_def stripSign_def stripPrefix_def
        isWhiteSpace_def digitValue_def radixValue_def)
  from value_write_paths [of "idle_at (JInt 0)" "JStr ''x''" None "Some ''12px''" "''1.5''"]
    SpinBox4_idle_at [of "JInt 0"] p
  show ?thesis by simp
qed




end
